theory Spec2Isabelle
  imports Main "HOL-Library.Sublist"
begin

section \<open>Python strings\<close>

text \<open>
  A Python \<open>str\<close> is a sequence of Unicode code points, so it is modelled as a list of
  natural numbers; \<open>py\<close> turns an ASCII literal into such a list.
\<close>

type_synonym pystr = "nat list"

definition py :: "string \<Rightarrow> pystr" where
  "py s = map of_char s"

text \<open>
  The code points for which \<open>str.isspace\<close> holds. \<open>str.strip()\<close> and the regular
  expression class \<open>\s\<close> on \<open>str\<close> patterns both use this predicate.
\<close>

definition isspace :: "nat \<Rightarrow> bool" where
  "isspace c = (c \<in> set [9, 10, 11, 12, 13, 28, 29, 30, 31, 32, 133, 160, 5760,
     8192, 8193, 8194, 8195, 8196, 8197, 8198, 8199, 8200, 8201, 8202,
     8232, 8233, 8239, 8287, 12288])"

definition lstrip :: "pystr \<Rightarrow> pystr" where
  "lstrip s = dropWhile isspace s"

definition rstrip :: "pystr \<Rightarrow> pystr" where
  "rstrip s = rev (dropWhile isspace (rev s))"

definition strip :: "pystr \<Rightarrow> pystr" where
  "strip s = lstrip (rstrip s)"

text \<open>
  \<open>str.lower()\<close> on the code points below 256 (\<open>A\<close>-\<open>Z\<close> and the Latin-1 capitals);
  other code points are left as they are. The source only compares lowercased text with
  fixed words over lowercase Latin-1 letters, and no code point from 256 on lowercases
  into those words, so the comparisons come out as in Python.
\<close>

definition lower_cp :: "nat \<Rightarrow> nat" where
  "lower_cp c = (if (65 \<le> c \<and> c \<le> 90) \<or> (192 \<le> c \<and> c \<le> 222 \<and> c \<noteq> 215) then c + 32 else c)"

definition lower :: "pystr \<Rightarrow> pystr" where
  "lower s = map lower_cp s"

text \<open>\<open>token in col\<close> on strings: \<open>token\<close> occurs in \<open>col\<close> as a contiguous substring.\<close>

primrec substr_in :: "pystr \<Rightarrow> pystr \<Rightarrow> bool" where
  "substr_in token [] = (token = [])"
| "substr_in token (c # cs) = (prefix token (c # cs) \<or> substr_in token cs)"

section \<open>Data frames\<close>

text \<open>
  A \<open>pandas.DataFrame\<close> as the script uses it: the column labels in order and the rows
  in order, each row holding one cell per column, by position. A cell is a text or the
  missing value \<open>NaN\<close> that \<open>pandas\<close> fills in. The frames that \<open>pandas.read_html\<close>
  produces have pairwise different labels and rows as long as the label list
  (\<open>wf_table\<close>).
\<close>

datatype cell = Str pystr | NaN

record table =
  columns :: "pystr list"
  rows :: "cell list list"

definition wf_table :: "table \<Rightarrow> bool" where
  "wf_table df = (distinct (columns df) \<and> list_all (\<lambda>r. length r = length (columns df)) (rows df))"

text \<open>\<open>df.empty\<close>: some axis has length 0. \<open>len(df)\<close> is the number of rows.\<close>

definition df_empty :: "table \<Rightarrow> bool" where
  "df_empty df = (columns df = [] \<or> rows df = [])"

definition len :: "table \<Rightarrow> nat" where
  "len df = length (rows df)"

text \<open>\<open>df.columns = [str(c).strip() for c in df.columns]\<close>\<close>

definition strip_columns :: "table \<Rightarrow> table" where
  "strip_columns df = df\<lparr>columns := map strip (columns df)\<rparr>"

section \<open>Table Extractor\<close>

definition typical_headers :: "pystr list" where
  "typical_headers = [py ''Pos'', py ''No'', py ''Name'', py ''Year of Birth'', py ''Time'',
     py ''Status'', py ''Club'', py ''UCI-ID'', py ''Pace'']"

text \<open>
  \<open>sum(1 for token in typical_headers if any(token in col for col in df.columns))\<close>
\<close>

definition score :: "pystr list \<Rightarrow> int" where
  "score cols = int (length (filter (\<lambda>token. list_ex (substr_in token) cols) typical_headers))"

text \<open>
  The scoring loop of \<open>extract_results_table\<close>, with the loop variables
  \<open>best_df\<close> and \<open>best_score\<close> as accumulators.
\<close>

fun score_loop :: "table list \<Rightarrow> table option \<Rightarrow> int \<Rightarrow> table option \<times> int" where
  "score_loop [] best_df best_score = (best_df, best_score)"
| "score_loop (df # tables) best_df best_score =
     (let df' = strip_columns df in
      if score (columns df') > best_score
      then score_loop tables (Some df') (score (columns df'))
      else score_loop tables best_df best_score)"

text \<open>\<open>max(tables, key=lambda d: len(d))\<close>: the first table of maximal length.\<close>

fun max_by_len :: "table \<Rightarrow> table list \<Rightarrow> table" where
  "max_by_len best [] = best"
| "max_by_len best (d # ds) = (if len d > len best then max_by_len d ds else max_by_len best ds)"

text \<open>
  The condition of the fallback branch, \<open>best_df is None and tables\<close>, after the loop.
\<close>

definition fallback_taken :: "table list \<Rightarrow> bool" where
  "fallback_taken tables = (fst (score_loop tables None (- 1)) = None \<and> tables \<noteq> [])"

text \<open>
  The body of \<open>extract_results_table\<close> once \<open>pd.read_html\<close> has returned \<open>tables\<close>.
  The loop has stripped the labels of every table in place by the time the fallback
  looks at them.
\<close>

definition select_table :: "table list \<Rightarrow> table option" where
  "select_table tables =
     (let best_df = fst (score_loop tables None (- 1)) in
      if fallback_taken tables
      then (case map strip_columns tables of
              [] \<Rightarrow> None
            | d # ds \<Rightarrow> Some (strip_columns (max_by_len d ds)))
      else best_df)"

section \<open>Pagination Detector\<close>

text \<open>
  What the script reads of a parsed page. \<open>html_tables\<close> is the list of frames that
  \<open>pd.read_html\<close> finds, which raises \<open>ValueError\<close> when there is none; \<open>anchors\<close> is
  \<open>soup.find_all("a")\<close>, in document order. Of an anchor the script reads the values of
  the multi-valued attribute \<open>rel\<close> (none when the attribute is absent), the attribute
  \<open>href\<close> if there is one, and \<open>get_text()\<close>.
\<close>

datatype error = RequestException | ValueError

record anchor =
  rel :: "pystr list"
  href :: "pystr option"
  get_text :: "pystr"

record page =
  html_tables :: "table list"
  anchors :: "anchor list"

definition possible_texts :: "pystr list" where
  "possible_texts = [py ''next'', py ''next '' @ [187], py ''next page'', py ''>'', [8250],
     py ''>>'', py ''more'', py ''weiter'', py ''n'' @ [228] @ py ''chste'']"

text \<open>
  \<open>urljoin\<close> belongs to the standard library, so the detector takes the resolution
  function as the parameter \<open>join\<close>; it may raise.
\<close>

type_synonym resolver = "pystr \<Rightarrow> pystr \<Rightarrow> error + pystr"

text \<open>The value \<open>join(current_url, href)\<close> is returned as the next-page URL.\<close>

definition resolved :: "resolver \<Rightarrow> pystr \<Rightarrow> pystr \<Rightarrow> error + pystr option" where
  "resolved join current_url h =
     (case join current_url h of Inl e \<Rightarrow> Inl e | Inr u \<Rightarrow> Inr (Some u))"

text \<open>
  Step 2 of \<open>find_next_page_url\<close>, the loop over all anchors. An absent \<open>href\<close> and an
  empty one are both falsy in \<open>a.get("href")\<close>.
\<close>

fun text_scan :: "resolver \<Rightarrow> pystr \<Rightarrow> anchor list \<Rightarrow> error + pystr option" where
  "text_scan join current_url [] = Inr None"
| "text_scan join current_url (a # as) =
     (case href a of
        None \<Rightarrow> text_scan join current_url as
      | Some h \<Rightarrow>
          if lower (strip (get_text a)) \<in> set possible_texts \<and> h \<noteq> []
          then resolved join current_url h
          else text_scan join current_url as)"

text \<open>
  \<open>soup.find("a", rel="next")\<close> is the first anchor one of whose \<open>rel\<close> values is
  \<open>next\<close>.
\<close>

definition find_next_page_url :: "resolver \<Rightarrow> page \<Rightarrow> pystr \<Rightarrow> error + pystr option" where
  "find_next_page_url join html current_url =
     (case find (\<lambda>a. py ''next'' \<in> set (rel a)) (anchors html) of
        None \<Rightarrow> text_scan join current_url (anchors html)
      | Some link \<Rightarrow>
          (case href link of
             None \<Rightarrow> text_scan join current_url (anchors html)
           | Some h \<Rightarrow>
               if h \<noteq> [] then resolved join current_url h
               else text_scan join current_url (anchors html)))"

section \<open>The standard library's \<open>urljoin\<close>\<close>

text \<open>
  \<open>urllib.parse.urljoin\<close> of CPython 3.11 on \<open>str\<close> arguments, with the functions it
  calls. \<open>urlsplit\<close> raises \<open>ValueError\<close> for an authority with only one of the two
  brackets. It also validates a host in brackets and an authority outside ASCII
  (under NFKC normalisation); these two checks can only raise and are not modelled, so
  for such an authority the definitions give the value that is returned if the check
  passes.
\<close>

definition uses_relative :: "pystr list" where
  "uses_relative = map py ['''', ''ftp'', ''http'', ''gopher'', ''nntp'', ''imap'',
     ''wais'', ''file'', ''https'', ''shttp'', ''mms'', ''prospero'', ''rtsp'', ''rtsps'',
     ''rtspu'', ''sftp'', ''svn'', ''svn+ssh'', ''ws'', ''wss'']"

definition uses_netloc :: "pystr list" where
  "uses_netloc = map py ['''', ''ftp'', ''http'', ''gopher'', ''nntp'', ''telnet'',
     ''imap'', ''wais'', ''file'', ''mms'', ''https'', ''shttp'', ''snews'', ''prospero'',
     ''rtsp'', ''rtsps'', ''rtspu'', ''rsync'', ''svn'', ''svn+ssh'', ''sftp'', ''nfs'',
     ''git'', ''git+ssh'', ''ws'', ''wss'']"

definition uses_params :: "pystr list" where
  "uses_params = map py ['''', ''ftp'', ''hdl'', ''prospero'', ''http'', ''imap'',
     ''https'', ''shttp'', ''rtsp'', ''rtsps'', ''rtspu'', ''sip'', ''sips'', ''mms'',
     ''sftp'', ''tel'']"

definition scheme_chars :: "pystr" where
  "scheme_chars = py ''abcdefghijklmnopqrstuvwxyzABCDEFGHIJKLMNOPQRSTUVWXYZ0123456789+-.''"

text \<open>\<open>s.split(c)\<close> for a one-character separator: never the empty list.\<close>

fun str_split :: "nat \<Rightarrow> pystr \<Rightarrow> pystr list" where
  "str_split c [] = [[]]"
| "str_split c (x # xs) =
     (if x = c then [] # str_split c xs
      else (case str_split c xs of [] \<Rightarrow> [[x]] | p # ps \<Rightarrow> (x # p) # ps))"

text \<open>\<open>s.split(c, 1)\<close> when \<open>c in s\<close>: the text before and after the first \<open>c\<close>.\<close>

definition split1 :: "nat \<Rightarrow> pystr \<Rightarrow> pystr \<times> pystr" where
  "split1 c s = (takeWhile (\<lambda>x. x \<noteq> c) s, drop 1 (dropWhile (\<lambda>x. x \<noteq> c) s))"

text \<open>\<open>sep.join(parts)\<close>\<close>

fun str_join :: "pystr \<Rightarrow> pystr list \<Rightarrow> pystr" where
  "str_join sep [] = []"
| "str_join sep [p] = p"
| "str_join sep (p # q # ps) = p @ sep @ str_join sep (q # ps)"

text \<open>\<open>_splitnetloc(url, 2)\<close>: the authority ends at the first of \<open>/\<close>, \<open>?\<close>, \<open>#\<close>.\<close>

definition splitnetloc :: "pystr \<Rightarrow> pystr \<times> pystr" where
  "splitnetloc url =
     (let rest = drop 2 url; delim = (\<lambda>x. x \<in> set (py ''/?#''))
      in (takeWhile (\<lambda>x. \<not> delim x) rest, dropWhile (\<lambda>x. \<not> delim x) rest))"

definition urlsplit :: "pystr \<Rightarrow> pystr \<Rightarrow> error + (pystr \<times> pystr \<times> pystr \<times> pystr \<times> pystr)" where
  "urlsplit url0 scheme0 =
     (let unsafe = (\<lambda>c. c \<in> set [9, 13, 10]);
          c0 = (\<lambda>c. c \<le> 32);
          url1 = filter (\<lambda>c. \<not> unsafe c) (dropWhile c0 url0);
          scheme1 = filter (\<lambda>c. \<not> unsafe c) (rev (dropWhile c0 (rev (dropWhile c0 scheme0))));
          pre = takeWhile (\<lambda>c. c \<noteq> 58) url1;
          has_scheme = (58 \<in> set url1 \<and> pre \<noteq> [] \<and>
             ((65 \<le> hd pre \<and> hd pre \<le> 90) \<or> (97 \<le> hd pre \<and> hd pre \<le> 122)) \<and>
             list_all (\<lambda>c. c \<in> set scheme_chars) pre);
          scheme = (if has_scheme then lower pre else scheme1);
          url2 = (if has_scheme then drop (Suc (length pre)) url1 else url1);
          netloc = (if take 2 url2 = py ''//'' then fst (splitnetloc url2) else []);
          url3 = (if take 2 url2 = py ''//'' then snd (splitnetloc url2) else url2);
          fragment = (if 35 \<in> set url3 then snd (split1 35 url3) else []);
          url4 = (if 35 \<in> set url3 then fst (split1 35 url3) else url3);
          query = (if 63 \<in> set url4 then snd (split1 63 url4) else []);
          url5 = (if 63 \<in> set url4 then fst (split1 63 url4) else url4)
      in if (91 \<in> set netloc) \<noteq> (93 \<in> set netloc) then Inl ValueError
         else Inr (scheme, netloc, url5, query, fragment))"

definition splitparams :: "pystr \<Rightarrow> pystr \<times> pystr" where
  "splitparams url =
     (if 47 \<in> set url
      then (let tl_seg = rev (takeWhile (\<lambda>c. c \<noteq> 47) (rev url));
                hd_part = take (length url - length tl_seg) url
            in if 59 \<in> set tl_seg
               then (hd_part @ fst (split1 59 tl_seg), snd (split1 59 tl_seg))
               else (url, []))
      else split1 59 url)"

definition urlparse :: "pystr \<Rightarrow> pystr \<Rightarrow> error + (pystr \<times> pystr \<times> pystr \<times> pystr \<times> pystr \<times> pystr)" where
  "urlparse url scheme0 =
     (case urlsplit url scheme0 of
        Inl e \<Rightarrow> Inl e
      | Inr (scheme, netloc, url', query, fragment) \<Rightarrow>
          if scheme \<in> set uses_params \<and> 59 \<in> set url'
          then Inr (scheme, netloc, fst (splitparams url'), snd (splitparams url'), query, fragment)
          else Inr (scheme, netloc, url', [], query, fragment))"

definition urlunsplit :: "pystr \<times> pystr \<times> pystr \<times> pystr \<times> pystr \<Rightarrow> pystr" where
  "urlunsplit comps =
     (case comps of (scheme, netloc, url0, query, fragment) \<Rightarrow>
        let url1 = (if netloc \<noteq> [] \<or> (scheme \<noteq> [] \<and> scheme \<in> set uses_netloc) \<or> take 2 url0 = py ''//''
                    then py ''//'' @ netloc @ (if url0 \<noteq> [] \<and> take 1 url0 \<noteq> py ''/'' then py ''/'' @ url0 else url0)
                    else url0);
            url2 = (if scheme \<noteq> [] then scheme @ py '':'' @ url1 else url1);
            url3 = (if query \<noteq> [] then url2 @ py ''?'' @ query else url2)
        in (if fragment \<noteq> [] then url3 @ py ''#'' @ fragment else url3))"

definition urlunparse :: "pystr \<times> pystr \<times> pystr \<times> pystr \<times> pystr \<times> pystr \<Rightarrow> pystr" where
  "urlunparse comps =
     (case comps of (scheme, netloc, url, params, query, fragment) \<Rightarrow>
        urlunsplit (scheme, netloc, (if params \<noteq> [] then url @ py '';'' @ params else url), query, fragment))"

text \<open>The loop of \<open>urljoin\<close> over the path segments, with \<open>resolved_path\<close> as accumulator.\<close>

fun resolve_segments :: "pystr list \<Rightarrow> pystr list \<Rightarrow> pystr list" where
  "resolve_segments resolved_path [] = resolved_path"
| "resolve_segments resolved_path (seg # segments) =
     (if seg = py ''..'' then resolve_segments (butlast resolved_path) segments
      else if seg = py ''.'' then resolve_segments resolved_path segments
      else resolve_segments (resolved_path @ [seg]) segments)"

text \<open>\<open>segments[1:-1] = filter(None, segments[1:-1])\<close>\<close>

fun filter_inner :: "pystr list \<Rightarrow> pystr list" where
  "filter_inner (x # y # zs) = x # filter (\<lambda>s. s \<noteq> []) (butlast (y # zs)) @ [last (y # zs)]"
| "filter_inner segments = segments"

definition urljoin :: "pystr \<Rightarrow> pystr \<Rightarrow> error + pystr" where
  "urljoin base url =
     (if base = [] then Inr url
      else if url = [] then Inr base
      else case urlparse base [] of
        Inl e \<Rightarrow> Inl e
      | Inr (bscheme, bnetloc, bpath, bparams, bquery, bfragment) \<Rightarrow>
         (case urlparse url bscheme of
            Inl e \<Rightarrow> Inl e
          | Inr (scheme, netloc, path, params, query, fragment) \<Rightarrow>
              if scheme \<noteq> bscheme \<or> scheme \<notin> set uses_relative then Inr url
              else if scheme \<in> set uses_netloc \<and> netloc \<noteq> []
              then Inr (urlunparse (scheme, netloc, path, params, query, fragment))
              else
                let netloc' = (if scheme \<in> set uses_netloc then bnetloc else netloc) in
                if path = [] \<and> params = []
                then Inr (urlunparse (scheme, netloc', bpath, bparams,
                            (if query = [] then bquery else query), fragment))
                else
                  let base_parts0 = str_split 47 bpath;
                      base_parts = (if last base_parts0 \<noteq> [] then butlast base_parts0 else base_parts0);
                      segments = (if take 1 path = py ''/'' then str_split 47 path
                                  else filter_inner (base_parts @ str_split 47 path));
                      resolved0 = resolve_segments [] segments;
                      resolved_path = (if last segments \<in> {py ''.'', py ''..''} then resolved0 @ [[]] else resolved0);
                      joined = str_join (py ''/'') resolved_path
                  in Inr (urlunparse (scheme, netloc', (if joined = [] then py ''/'' else joined),
                            params, query, fragment))))"

section \<open>Merger and Deduplicator\<close>

text \<open>
  The value of a row in the column labelled \<open>c\<close>, where \<open>cols\<close> are the labels of the
  frame the row belongs to; \<open>NaN\<close> when the frame has no such column, which is what
  \<open>pandas\<close> fills in when it aligns a frame to more labels.
\<close>

definition cell_of :: "pystr list \<Rightarrow> cell list \<Rightarrow> pystr \<Rightarrow> cell" where
  "cell_of cols r c = (case map_of (zip cols r) c of None \<Rightarrow> NaN | Some v \<Rightarrow> v)"

text \<open>
  \<open>pd.concat(all_frames, ignore_index=True)\<close> on frames with pairwise different labels
  each: the labels are those of all frames in the order of their first appearance, and
  the rows of every frame, in order, are aligned to them.
\<close>

fun union_labels :: "pystr list \<Rightarrow> pystr list \<Rightarrow> pystr list" where
  "union_labels acc [] = acc"
| "union_labels acc (c # cs) = union_labels (if c \<in> set acc then acc else acc @ [c]) cs"

definition reindex_row :: "pystr list \<Rightarrow> table \<Rightarrow> cell list \<Rightarrow> cell list" where
  "reindex_row cols df r = map (cell_of (columns df) r) cols"

definition pd_concat :: "table list \<Rightarrow> table" where
  "pd_concat frames =
     (let cols = foldl union_labels [] (map columns frames)
      in \<lparr>columns = cols, rows = concat (map (\<lambda>df. map (reindex_row cols df) (rows df)) frames)\<rparr>)"

text \<open>
  \<open>big.drop_duplicates(subset=ids)\<close>: a row is dropped when its values in the
  columns \<open>ids\<close> have been seen in an earlier row; missing values count as equal.
\<close>

fun keep_first :: "('r \<Rightarrow> 'k) \<Rightarrow> 'k list \<Rightarrow> 'r list \<Rightarrow> 'r list" where
  "keep_first key seen [] = []"
| "keep_first key seen (r # rs) =
     (if key r \<in> set seen then keep_first key seen rs
      else r # keep_first key (key r # seen) rs)"

definition row_key :: "table \<Rightarrow> pystr list \<Rightarrow> cell list \<Rightarrow> cell list" where
  "row_key df ids r = map (cell_of (columns df) r) ids"

definition drop_duplicates :: "pystr list \<Rightarrow> table \<Rightarrow> table" where
  "drop_duplicates ids df = df\<lparr>rows := keep_first (row_key df ids) [] (rows df)\<rparr>"

text \<open>\<open>[c for c in big.columns if c.lower() in ("pos", "no", "name")]\<close>\<close>

definition dedup_cols :: "table \<Rightarrow> pystr list" where
  "dedup_cols big = filter (\<lambda>c. lower c \<in> set [py ''pos'', py ''no'', py ''name'']) (columns big)"

text \<open>
  The end of \<open>scrape_all_pages\<close>, from \<open>if not all_frames\<close> on; \<open>pd.DataFrame()\<close> has
  neither columns nor rows.
\<close>

definition merge_frames :: "table list \<Rightarrow> table" where
  "merge_frames all_frames =
     (if all_frames = [] then \<lparr>columns = [], rows = []\<rparr>
      else let big = pd_concat all_frames
           in if dedup_cols big \<noteq> [] then drop_duplicates (dedup_cols big) big else big)"

section \<open>Column Normalizer\<close>

definition REQUESTED_COLUMNS :: "pystr list" where
  "REQUESTED_COLUMNS = [py ''Pos'', py ''No'', py ''Name'', py ''Year of Birth'', py ''Time'',
     py ''Diff'', py ''Cat'', py ''Cat Pos'', py ''Cat Diff'', [9892], [9892] @ py '' Pos'',
     [9892] @ py '' Diff'', py ''Club'', py ''Pace'', py ''City'', py ''Status'', py ''UCI-ID'']"

text \<open>\<open>.astype(str)\<close> on a cell: a text stays, the missing value becomes \<open>nan\<close>.\<close>

definition astype_str :: "cell \<Rightarrow> pystr" where
  "astype_str v = (case v of Str s \<Rightarrow> s | NaN \<Rightarrow> py ''nan'')"

text \<open>
  \<open>.str.split(r"\s{2,}", n=1).str[0]\<close>: the text before the leftmost place where two
  whitespace characters follow each other, the whole text when there is none.
\<close>

fun before_gap :: "pystr \<Rightarrow> pystr" where
  "before_gap (a # b # s) = (if isspace a \<and> isspace b then [] else a # before_gap (b # s))"
| "before_gap s = s"

definition clean_name :: "cell \<Rightarrow> cell" where
  "clean_name v = Str (strip (before_gap (astype_str v)))"

text \<open>\<open>df[c] = f(df[c])\<close> for a label \<open>c\<close> of the frame.\<close>

definition update_column :: "table \<Rightarrow> pystr \<Rightarrow> (cell \<Rightarrow> cell) \<Rightarrow> table" where
  "update_column df c f =
     df\<lparr>rows := map (\<lambda>r. map (\<lambda>(l, v). if l = c then f v else v) (zip (columns df) r)) (rows df)\<rparr>"

definition normalize_name_column :: "table \<Rightarrow> table" where
  "normalize_name_column df =
     (if py ''Name'' \<in> set (columns df) then update_column df (py ''Name'') clean_name else df)"

text \<open>\<open>df[col] = ""\<close> for a label that the frame does not have: a new last column.\<close>

definition add_column :: "table \<Rightarrow> pystr \<Rightarrow> table" where
  "add_column df col = \<lparr>columns = columns df @ [col], rows = map (\<lambda>r. r @ [Str []]) (rows df)\<rparr>"

text \<open>The loop \<open>for col in REQUESTED_COLUMNS\<close> of \<open>select_and_order_columns\<close>.\<close>

fun ensure_columns :: "pystr list \<Rightarrow> table \<Rightarrow> table" where
  "ensure_columns [] df = df"
| "ensure_columns (col # cols) df =
     ensure_columns cols (if col \<notin> set (columns df) then add_column df col else df)"

text \<open>\<open>df[cols].copy()\<close> when the frame has every label of \<open>cols\<close>.\<close>

definition project :: "table \<Rightarrow> pystr list \<Rightarrow> table" where
  "project df cols = \<lparr>columns = cols, rows = map (\<lambda>r. map (cell_of (columns df) r) cols) (rows df)\<rparr>"

definition select_and_order_columns :: "table \<Rightarrow> table" where
  "select_and_order_columns df =
     project (normalize_name_column (ensure_columns REQUESTED_COLUMNS df)) REQUESTED_COLUMNS"

section \<open>Scrape Loop\<close>

text \<open>
  \<open>extract_results_table\<close>: \<open>pd.read_html\<close> raises \<open>ValueError\<close> for markup without
  tables, and the Extractor then returns nothing.
\<close>

definition extract_results_table :: "page \<Rightarrow> table option" where
  "extract_results_table html =
     (if html_tables html = [] then None else select_table (html_tables html))"

text \<open>
  The network is a parameter: \<open>web url\<close> is what \<open>fetch_html(session, url)\<close> does, an
  exception or the parsed markup. The state of the loop of \<open>scrape_all_pages\<close> consists of
  its three variables and, for the statements about it, of the record \<open>trace\<close> of what it
  has done: \<open>Visit url\<close> for \<open>visited.add(url)\<close> and \<open>Fetch url\<close> for the request.
\<close>

type_synonym web = "pystr \<Rightarrow> error + page"

datatype event = Visit pystr | Fetch pystr

record scrape_state =
  all_frames :: "table list"
  visited :: "pystr set"
  url :: "pystr option"
  trace :: "event list"

definition initial_state :: "pystr \<Rightarrow> scrape_state" where
  "initial_state start_url = \<lparr>all_frames = [], visited = {}, url = Some start_url, trace = []\<rparr>"

text \<open>
  \<open>while url and url not in visited\<close>: the URL that the next iteration fetches, if the
  loop goes on. Both \<open>None\<close> and the empty string are falsy.
\<close>

definition current_url :: "scrape_state \<Rightarrow> pystr option" where
  "current_url s =
     (case url s of
        None \<Rightarrow> None
      | Some u \<Rightarrow> if u \<noteq> [] \<and> u \<notin> visited s then Some u else None)"

text \<open>What the frame found on a page adds to \<open>all_frames\<close>.\<close>

definition page_frames :: "page \<Rightarrow> table list" where
  "page_frames html =
     (case extract_results_table html of
        None \<Rightarrow> []
      | Some df \<Rightarrow> if df_empty df then [] else [strip_columns df])"

text \<open>
  One iteration for the URL \<open>u\<close>. An exception of the fetch or of the link resolution
  leaves the loop; it is returned with the trace up to it.
\<close>

definition loop_body :: "resolver \<Rightarrow> web \<Rightarrow> scrape_state \<Rightarrow> pystr \<Rightarrow> (error \<times> event list) + scrape_state" where
  "loop_body join web s u =
     (let visited' = insert u (visited s);
          trace' = trace s @ [Visit u, Fetch u]
      in case web u of
           Inl e \<Rightarrow> Inl (e, trace')
         | Inr html \<Rightarrow>
             (case find_next_page_url join html u of
                Inl e \<Rightarrow> Inl (e, trace')
              | Inr next_url \<Rightarrow>
                  Inr \<lparr>all_frames = all_frames s @ page_frames html, visited = visited',
                       url = next_url, trace = trace'\<rparr>))"

text \<open>
  The loop, run for at most \<open>n\<close> iterations: it ends normally (\<open>Done\<close>), with an exception
  (\<open>Raised\<close>), or it has made \<open>n\<close> iterations and would test its condition next
  (\<open>OutOfFuel\<close>, with the state reached).
\<close>

datatype loop_result = Done scrape_state | Raised error "event list" | OutOfFuel scrape_state

fun scrape_loop :: "nat \<Rightarrow> resolver \<Rightarrow> web \<Rightarrow> scrape_state \<Rightarrow> loop_result" where
  "scrape_loop 0 join web s = OutOfFuel s"
| "scrape_loop (Suc n) join web s =
     (case current_url s of
        None \<Rightarrow> Done s
      | Some u \<Rightarrow>
          (case loop_body join web s u of
             Inl (e, t) \<Rightarrow> Raised e t
           | Inr s' \<Rightarrow> scrape_loop n join web s'))"

text \<open>\<open>scrape_all_pages\<close>; \<open>None\<close> when \<open>fuel\<close> iterations do not finish the loop.\<close>

definition scrape_all_pages :: "nat \<Rightarrow> resolver \<Rightarrow> web \<Rightarrow> pystr \<Rightarrow> (error + table) option" where
  "scrape_all_pages fuel join web start_url =
     (case scrape_loop fuel join web (initial_state start_url) of
        Done s \<Rightarrow> Some (Inr (merge_frames (all_frames s)))
      | Raised e t \<Rightarrow> Some (Inl e)
      | OutOfFuel s \<Rightarrow> None)"

section \<open>Main program\<close>

text \<open>\<open>str(n)\<close> for a natural number: its decimal digits.\<close>

fun str_of_nat :: "nat \<Rightarrow> pystr" where
  "str_of_nat n = (if n < 10 then [48 + n] else str_of_nat (n div 10) @ [48 + n mod 10])"

declare str_of_nat.simps [simp del]

text \<open>
  What a run of \<open>main\<close> leaves behind: the exit code, the lines printed to standard output
  and to standard error, and the calls of the Writer, each with the file name and the frame
  it serializes. The command line has been parsed into \<open>args_url\<close> and \<open>args_output\<close>.
\<close>

record outcome =
  exit_code :: int
  stdout :: "pystr list"
  stderr :: "pystr list"
  written :: "(pystr \<times> table) list"

definition main :: "nat \<Rightarrow> resolver \<Rightarrow> web \<Rightarrow> pystr \<Rightarrow> pystr \<Rightarrow> (error + outcome) option" where
  "main fuel join web args_url args_output =
     (case scrape_all_pages fuel join web args_url of
        None \<Rightarrow> None
      | Some (Inl e) \<Rightarrow> Some (Inl e)
      | Some (Inr df_all) \<Rightarrow>
          if df_empty df_all
          then Some (Inr \<lparr>exit_code = 1, stdout = [],
                 stderr = [py ''No data found: could not locate a suitable results table.''],
                 written = []\<rparr>)
          else (let df_final = select_and_order_columns df_all
                in Some (Inr \<lparr>exit_code = 0,
                     stdout = [py ''Wrote '' @ str_of_nat (len df_final) @ py '' rows to '' @ args_output],
                     stderr = [], written = [(args_output, df_final)]\<rparr>)))"

text \<open>The URLs requested in a trace, in order, and the trace of a result of the loop.\<close>

fun fetched :: "event list \<Rightarrow> pystr list" where
  "fetched [] = []"
| "fetched (Fetch u # t) = u # fetched t"
| "fetched (Visit u # t) = fetched t"

fun result_trace :: "loop_result \<Rightarrow> event list" where
  "result_trace (Done s) = trace s"
| "result_trace (Raised e t) = t"
| "result_trace (OutOfFuel s) = trace s"

section \<open>Notions used in the statements, and examples\<close>

text \<open>The score the loop computes for a candidate: that of its stripped labels.\<close>

definition table_score :: "table \<Rightarrow> int" where
  "table_score df = score (columns (strip_columns df))"

text \<open>
  The score in the words of the specification: the number of distinct tokens of the fixed
  set that occur as a substring of at least one trimmed column name.
\<close>

definition header_score :: "table \<Rightarrow> int" where
  "header_score df =
     int (card {token \<in> set typical_headers. \<exists>col\<in>set (columns df). sublist token (strip col)})"

text \<open>Position \<open>i\<close> holds the first candidate of maximal score.\<close>

definition first_max :: "table list \<Rightarrow> nat \<Rightarrow> bool" where
  "first_max ts i = (i < length ts \<and> (\<forall>j<length ts. table_score (ts ! j) \<le> table_score (ts ! i)) \<and>
     (\<forall>j<i. table_score (ts ! j) < table_score (ts ! i)))"

text \<open>Three candidate tables; the second and the third both score 2.\<close>

definition example_tables :: "table list" where
  "example_tables =
     [\<lparr>columns = [py ''Foo''], rows = [[NaN], [NaN]]\<rparr>,
      \<lparr>columns = [py '' Pos '', py ''Name''], rows = [[Str (py ''1''), NaN]]\<rparr>,
      \<lparr>columns = [py ''Name'', py ''Pos''], rows = [[NaN, Str (py ''2'')]]\<rparr>]"

text \<open>An anchor has a link target when \<open>a.get("href")\<close> is truthy.\<close>

definition has_link_target :: "anchor \<Rightarrow> bool" where
  "has_link_target a = (case href a of None \<Rightarrow> False | Some h \<Rightarrow> h \<noteq> [])"

text \<open>A page with a single anchor, and a list of anchors of which only the last has a target.\<close>

definition link_page :: "pystr list \<Rightarrow> pystr \<Rightarrow> pystr \<Rightarrow> page" where
  "link_page r t h = \<lparr>html_tables = [], anchors = [\<lparr>rel = r, href = Some h, get_text = t\<rparr>]\<rparr>"

definition example_anchors :: "anchor list" where
  "example_anchors =
     [\<lparr>rel = [py ''next''], href = None, get_text = py ''Next''\<rparr>,
      \<lparr>rel = [], href = Some [], get_text = py '' NEXT PAGE ''\<rparr>,
      \<lparr>rel = [], href = Some (py ''?page=2''), get_text = py ''Next '' @ [187]\<rparr>]"


text \<open>The frames of two pages that share the row of the starter 42.\<close>

definition example_frames :: "table list" where
  "example_frames =
     [\<lparr>columns = [py ''Pos'', py ''No'', py ''Name'', py ''Time''],
       rows = [[Str (py ''1''), Str (py ''42''), Str (py ''X''), Str (py ''10:00'')],
               [Str (py ''2''), Str (py ''7''), Str (py ''Y''), Str (py ''11:00'')]]\<rparr>,
      \<lparr>columns = [py ''Pos'', py ''No'', py ''Name'', py ''Club''],
       rows = [[Str (py ''1''), Str (py ''42''), Str (py ''X''), Str (py ''ABC'')],
               [Str (py ''3''), Str (py ''9''), Str (py ''Z''), Str (py ''DEF'')]]\<rparr>]"

definition example_big :: "table" where
  "example_big =
     \<lparr>columns = [py ''Pos'', py ''No'', py ''Name'', py ''Time'', py ''Club''],
      rows = [[Str (py ''1''), Str (py ''42''), Str (py ''X''), Str (py ''10:00''), NaN],
              [Str (py ''2''), Str (py ''7''), Str (py ''Y''), Str (py ''11:00''), NaN],
              [Str (py ''1''), Str (py ''42''), Str (py ''X''), NaN, Str (py ''ABC'')],
              [Str (py ''3''), Str (py ''9''), Str (py ''Z''), NaN, Str (py ''DEF'')]]\<rparr>"

definition example_merged :: "table" where
  "example_merged =
     \<lparr>columns = [py ''Pos'', py ''No'', py ''Name'', py ''Time'', py ''Club''],
      rows = [[Str (py ''1''), Str (py ''42''), Str (py ''X''), Str (py ''10:00''), NaN],
              [Str (py ''2''), Str (py ''7''), Str (py ''Y''), Str (py ''11:00''), NaN],
              [Str (py ''3''), Str (py ''9''), Str (py ''Z''), NaN, Str (py ''DEF'')]]\<rparr>"

text \<open>
  Two whitespace characters follow each other at position \<open>k\<close> of \<open>s\<close>: a run of two or
  more whitespace characters covers the positions \<open>k\<close> and \<open>k + 1\<close>.
\<close>

definition gap_at :: "pystr \<Rightarrow> nat \<Rightarrow> bool" where
  "gap_at s k = (Suc k < length s \<and> isspace (s ! k) \<and> isspace (s ! Suc k))"

text \<open>The text contains a run of two or more whitespace characters.\<close>

fun has_gap :: "pystr \<Rightarrow> bool" where
  "has_gap (a # b # s) = ((isspace a \<and> isspace b) \<or> has_gap (b # s))"
| "has_gap s = False"

text \<open>The Name value of row \<open>i\<close> as text, and the Name value of that row after the cleanup.\<close>

definition name_text :: "table \<Rightarrow> nat \<Rightarrow> pystr" where
  "name_text df i = astype_str (cell_of (columns df) (rows df ! i) (py ''Name''))"

definition cleaned_name :: "table \<Rightarrow> nat \<Rightarrow> cell" where
  "cleaned_name df i = cell_of (columns df) (rows (normalize_name_column df) ! i) (py ''Name'')"

text \<open>
  A ResultSet is already normalized: its columns are the requested ones, and every Name
  value is a text that is trimmed and has no run of two or more whitespace characters.
\<close>

definition already_normalized :: "table \<Rightarrow> bool" where
  "already_normalized rs =
     (columns rs = REQUESTED_COLUMNS \<and>
      list_all (\<lambda>r. length r = length REQUESTED_COLUMNS \<and>
        (case cell_of REQUESTED_COLUMNS r (py ''Name'') of
           Str s \<Rightarrow> strip s = s \<and> \<not> has_gap s
         | NaN \<Rightarrow> False)) (rows rs))"

text \<open>A frame with one Name to clean and one that is clean.\<close>

definition example_names :: "table" where
  "example_names =
     \<lparr>columns = [py ''No'', py ''Name''],
      rows = [[Str (py ''42''), Str (py ''Alice Smith  Cycling Club ABC'')],
              [Str (py ''7''), Str (py ''Bob Jones'')]]\<rparr>"

text \<open>What the Normalizer makes of \<open>example_names\<close>.\<close>

definition example_output :: "table" where
  "example_output =
     \<lparr>columns = REQUESTED_COLUMNS,
      rows = [[Str [], Str (py ''42''), Str (py ''Alice Smith''), Str [], Str [], Str [], Str [], Str [],
               Str [], Str [], Str [], Str [], Str [], Str [], Str [], Str [], Str []],
              [Str [], Str (py ''7''), Str (py ''Bob Jones''), Str [], Str [], Str [], Str [], Str [],
               Str [], Str [], Str [], Str [], Str [], Str [], Str [], Str [], Str []]]\<rparr>"

text \<open>The frames that the page at a URL contributes, none if the fetch fails.\<close>

definition frames_at :: "web \<Rightarrow> pystr \<Rightarrow> table list" where
  "frames_at web u = (case web u of Inl e \<Rightarrow> [] | Inr html \<Rightarrow> page_frames html)"

text \<open>
  In a trace every URL is marked as visited immediately before it is fetched, and no URL
  is fetched twice.
\<close>

definition trace_ok :: "event list \<Rightarrow> bool" where
  "trace_ok t = (t = concat (map (\<lambda>u. [Visit u, Fetch u]) (fetched t)) \<and> distinct (fetched t))"

text \<open>The invariant of the loop that starts at \<open>start_url\<close>.\<close>

definition loop_inv :: "web \<Rightarrow> pystr \<Rightarrow> scrape_state \<Rightarrow> bool" where
  "loop_inv web start_url s =
     (trace_ok (trace s) \<and> visited s = set (fetched (trace s)) \<and>
      (case fetched (trace s) of [] \<Rightarrow> url s = Some start_url | u # us \<Rightarrow> u = start_url) \<and>
      all_frames s = concat (map (frames_at web) (fetched (trace s))) \<and>
      list_all (\<lambda>df. \<not> df_empty df) (all_frames s))"

text \<open>
  A site of two pages: the first links to the second by its text, the second links back
  to the first with \<open>rel="next"\<close>. Every other URL fails to load.
\<close>

definition example_url1 :: "pystr" where
  "example_url1 = py ''https://x.test/a/b?page=1''"

definition example_url2 :: "pystr" where
  "example_url2 = py ''https://x.test/a/b?page=2''"

definition example_page1 :: "page" where
  "example_page1 =
     \<lparr>html_tables = [\<lparr>columns = [py ''Menu''], rows = [[Str (py ''Home'')]]\<rparr>,
        \<lparr>columns = [py ''Pos'', py ''No'', py ''Name'', py ''Time''],
         rows = [[Str (py ''1''), Str (py ''42''), Str (py ''X''), Str (py ''10:00'')],
                 [Str (py ''2''), Str (py ''7''), Str (py ''Y''), Str (py ''11:00'')]]\<rparr>],
      anchors = [\<lparr>rel = [], href = Some (py ''?page=2''), get_text = py ''Next '' @ [187]\<rparr>]\<rparr>"

definition example_page2 :: "page" where
  "example_page2 =
     \<lparr>html_tables = [\<lparr>columns = [py ''Pos'', py ''No'', py ''Name'', py ''Club''],
         rows = [[Str (py ''1''), Str (py ''42''), Str (py ''X''), Str (py ''ABC'')],
                 [Str (py ''3''), Str (py ''9''), Str (py ''Z''), Str (py ''DEF'')]]\<rparr>],
      anchors = [\<lparr>rel = [py ''next''], href = Some (py ''?page=1''), get_text = []\<rparr>]\<rparr>"

definition example_web :: "web" where
  "example_web u =
     (if u = example_url1 then Inr example_page1
      else if u = example_url2 then Inr example_page2
      else Inl RequestException)"

definition example_final_state :: "scrape_state" where
  "example_final_state =
     \<lparr>all_frames = example_frames, visited = {example_url2, example_url1}, url = Some example_url1,
      trace = [Visit example_url1, Fetch example_url1, Visit example_url2, Fetch example_url2]\<rparr>"

text \<open>A site whose only page has no table and no link.\<close>

definition empty_web :: "web" where
  "empty_web u = Inr \<lparr>html_tables = [], anchors = []\<rparr>"

section \<open>Properties of strings\<close>

lemma substr_in_sublist: "substr_in token col \<longleftrightarrow> sublist token col"
  by (induction col) (auto simp: sublist_Cons_right)

section \<open>Properties of the Table Extractor\<close>

lemma score_nonneg: "0 \<le> score cols"
  by (simp add: score_def)

lemma first_max_0:
  assumes "\<forall>t\<in>set ts. table_score t \<le> table_score df"
  shows "first_max (df # ts) 0"
  unfolding first_max_def
proof (intro conjI allI impI)
  fix j assume "j < length (df # ts)"
  then show "table_score ((df # ts) ! j) \<le> table_score ((df # ts) ! 0)"
    using assms by (cases j) simp_all
qed simp_all

lemma first_max_Suc:
  assumes "first_max ts i" and "table_score df < table_score (ts ! i)"
  shows "first_max (df # ts) (Suc i)"
  unfolding first_max_def
proof (intro conjI allI impI)
  show "Suc i < length (df # ts)" using assms(1) by (simp add: first_max_def)
next
  fix j assume "j < length (df # ts)"
  then show "table_score ((df # ts) ! j) \<le> table_score ((df # ts) ! Suc i)"
    using assms by (cases j) (simp_all add: first_max_def)
next
  fix j assume "j < Suc i"
  then show "table_score ((df # ts) ! j) < table_score ((df # ts) ! Suc i)"
    using assms by (cases j) (simp_all add: first_max_def)
qed

lemma score_loop_step:
  "score_loop (df # ts) b s =
     (if table_score df > s then score_loop ts (Some (strip_columns df)) (table_score df)
      else score_loop ts b s)"
  by (simp add: table_score_def Let_def)

lemma score_loop_keep:
  "\<forall>t\<in>set ts. table_score t \<le> s \<Longrightarrow> score_loop ts b s = (b, s)"
proof (induction ts)
  case Nil
  then show ?case by simp
next
  case (Cons df ts)
  then have "\<not> table_score df > s" by simp
  then show ?case using Cons by (simp only: score_loop_step if_False) simp
qed

lemma score_loop_pick:
  "\<exists>t\<in>set ts. table_score t > s \<Longrightarrow>
   \<exists>i. first_max ts i \<and> s < table_score (ts ! i) \<and>
       score_loop ts b s = (Some (strip_columns (ts ! i)), table_score (ts ! i))"
proof (induction ts arbitrary: b s)
  case Nil
  then show ?case by simp
next
  case (Cons df ts)
  show ?case
  proof (cases "table_score df > s")
    case True
    note step = score_loop_step [of df ts b s]
    show ?thesis
    proof (cases "\<exists>t\<in>set ts. table_score t > table_score df")
      case T2: True
      from Cons.IH [OF T2, of "Some (strip_columns df)"] obtain i where
        i: "first_max ts i" "table_score df < table_score (ts ! i)"
        "score_loop ts (Some (strip_columns df)) (table_score df)
           = (Some (strip_columns (ts ! i)), table_score (ts ! i))" by blast
      have "first_max (df # ts) (Suc i)" using i(1,2) by (rule first_max_Suc)
      moreover have "s < table_score ((df # ts) ! Suc i)" using True i(2) by simp
      moreover have "score_loop (df # ts) b s
          = (Some (strip_columns ((df # ts) ! Suc i)), table_score ((df # ts) ! Suc i))"
        using step True i(3) by simp
      ultimately show ?thesis by blast
    next
      case F2: False
      then have le: "\<forall>t\<in>set ts. table_score t \<le> table_score df" by (meson not_le)
      have "first_max (df # ts) 0" using le by (rule first_max_0)
      moreover have "s < table_score ((df # ts) ! 0)" using True by simp
      moreover have "score_loop (df # ts) b s
          = (Some (strip_columns ((df # ts) ! 0)), table_score ((df # ts) ! 0))"
        using step True score_loop_keep [OF le] by simp
      ultimately show ?thesis by blast
    qed
  next
    case False
    with Cons.prems have ex: "\<exists>t\<in>set ts. table_score t > s" by auto
    from Cons.IH [OF ex, of b] obtain i where
      i: "first_max ts i" "s < table_score (ts ! i)"
      "score_loop ts b s = (Some (strip_columns (ts ! i)), table_score (ts ! i))" by blast
    have "table_score df < table_score (ts ! i)" using False i(2) by simp
    with i(1) have "first_max (df # ts) (Suc i)" by (rule first_max_Suc)
    moreover have "s < table_score ((df # ts) ! Suc i)" using i(2) by simp
    moreover have "score_loop (df # ts) b s
        = (Some (strip_columns ((df # ts) ! Suc i)), table_score ((df # ts) ! Suc i))"
      using score_loop_step [of df ts b s] False i(3) by simp
    ultimately show ?thesis by blast
  qed
qed

lemma table_score_nonneg: "0 \<le> table_score t"
  by (simp add: table_score_def score_nonneg)

lemma score_loop_initial:
  assumes "tables \<noteq> []"
  shows "\<exists>i. first_max tables i \<and>
     score_loop tables None (- 1) = (Some (strip_columns (tables ! i)), table_score (tables ! i))"
proof -
  from assms obtain t where t: "t \<in> set tables" by (cases tables) auto
  have "- 1 < table_score t" using table_score_nonneg [of t] by simp
  with t have "\<exists>t\<in>set tables. table_score t > - 1" by blast
  from score_loop_pick [OF this] show ?thesis by blast
qed

lemma score_card:
  "score cols = int (card {token \<in> set typical_headers. \<exists>col\<in>set cols. sublist token col})"
proof -
  have d: "distinct typical_headers" by (simp add: typical_headers_def py_def)
  have "{token \<in> set typical_headers. \<exists>col\<in>set cols. sublist token col}
       = set (filter (\<lambda>token. list_ex (substr_in token) cols) typical_headers)"
    by (auto simp: list_ex_iff substr_in_sublist)
  moreover have "card (set (filter (\<lambda>token. list_ex (substr_in token) cols) typical_headers))
       = length (filter (\<lambda>token. list_ex (substr_in token) cols) typical_headers)"
    using d by (intro distinct_card distinct_filter)
  ultimately show ?thesis by (simp only: score_def)
qed

lemma table_score_header_score: "table_score df = header_score df"
proof -
  have "{token \<in> set typical_headers. \<exists>col\<in>set (map strip (columns df)). sublist token col}
      = {token \<in> set typical_headers. \<exists>col\<in>set (columns df). sublist token (strip col)}"
    by auto
  then show ?thesis
    by (simp add: table_score_def header_score_def strip_columns_def score_card)
qed

lemma not_fallback_taken: "\<not> fallback_taken tables"
proof (cases "tables = []")
  case True
  then show ?thesis by (simp add: fallback_taken_def)
next
  case False
  from score_loop_initial [OF False] show ?thesis by (auto simp: fallback_taken_def)
qed

lemma select_table_score_loop: "select_table tables = fst (score_loop tables None (- 1))"
  by (simp add: select_table_def not_fallback_taken)

lemma select_table_first_max:
  assumes "tables \<noteq> []"
  shows "\<exists>i<length tables. select_table tables = Some (strip_columns (tables ! i)) \<and>
           (\<forall>j<length tables. header_score (tables ! j) \<le> header_score (tables ! i)) \<and>
           (\<forall>j<i. header_score (tables ! j) < header_score (tables ! i))"
proof -
  from score_loop_initial [OF assms] obtain i where i: "first_max tables i"
    "score_loop tables None (- 1) = (Some (strip_columns (tables ! i)), table_score (tables ! i))"
    by blast
  have "select_table tables = Some (strip_columns (tables ! i))"
    using i(2) by (simp add: select_table_score_loop)
  moreover have "i < length tables" using i(1) by (simp add: first_max_def)
  moreover have "\<forall>j<length tables. header_score (tables ! j) \<le> header_score (tables ! i)"
    using i(1) by (simp add: first_max_def table_score_header_score)
  moreover have "\<forall>j<i. header_score (tables ! j) < header_score (tables ! i)"
    using i(1) by (simp add: first_max_def table_score_header_score)
  ultimately show ?thesis by blast
qed

text \<open>
  C1. Whenever the parse of the markup yields a non-empty list of candidate tables, the
  Table Extractor returns the candidate (with its labels stripped) whose score, the number
  of distinct tokens of the fixed set that occur as a case-sensitive substring of at least
  one trimmed column name, is maximal; among several candidates of maximal score it
  returns the earliest one: every candidate before it has a strictly smaller score.
\<close>

theorem extractor_returns_first_max:
  assumes "html_tables html \<noteq> []"
  shows "\<exists>i<length (html_tables html).
           extract_results_table html = Some (strip_columns (html_tables html ! i)) \<and>
           (\<forall>j<length (html_tables html).
              header_score (html_tables html ! j) \<le> header_score (html_tables html ! i)) \<and>
           (\<forall>j<i. header_score (html_tables html ! j) < header_score (html_tables html ! i))"
  using select_table_first_max [OF assms] assms by (simp add: extract_results_table_def)

theorem extractor_returns_first_max_witness:
  "html_tables \<lparr>html_tables = example_tables, anchors = []\<rparr> \<noteq> [] \<and>
   (\<exists>i<length example_tables.
      extract_results_table \<lparr>html_tables = example_tables, anchors = []\<rparr>
        = Some (strip_columns (example_tables ! i))) \<and>
   extract_results_table \<lparr>html_tables = example_tables, anchors = []\<rparr>
     = Some \<lparr>columns = [py ''Pos'', py ''Name''], rows = [[Str (py ''1''), NaN]]\<rparr>"
proof -
  have ne: "html_tables \<lparr>html_tables = example_tables, anchors = []\<rparr> \<noteq> []"
    by (simp add: example_tables_def)
  have "extract_results_table \<lparr>html_tables = example_tables, anchors = []\<rparr>
      = Some \<lparr>columns = [py ''Pos'', py ''Name''], rows = [[Str (py ''1''), NaN]]\<rparr>"
    by (simp add: extract_results_table_def example_tables_def select_table_def fallback_taken_def
        strip_columns_def score_def typical_headers_def py_def strip_def lstrip_def rstrip_def
        isspace_def)
  with extractor_returns_first_max [OF ne] ne show ?thesis by auto
qed

text \<open>
  C4. The fallback branch that picks the largest table is never taken: every score is at
  least 0 and so exceeds the initial best score -1, the scoring loop selects a table
  whenever the candidate list is non-empty, and the result of the Extractor is always the
  one the loop selected.
\<close>

theorem fallback_unreachable:
  "\<not> fallback_taken tables \<and> - 1 < table_score df \<and>
   select_table tables = fst (score_loop tables None (- 1)) \<and>
   (fst (score_loop tables None (- 1)) = None) = (tables = [])"
proof -
  have "(fst (score_loop tables None (- 1)) = None) = (tables = [])"
  proof (cases "tables = []")
    case True
    then show ?thesis by simp
  next
    case False
    from score_loop_initial [OF False] show ?thesis using False by auto
  qed
  moreover have "- 1 < table_score df" using table_score_nonneg [of df] by simp
  ultimately show ?thesis by (simp add: not_fallback_taken select_table_score_loop)
qed

section \<open>Properties of the Pagination Detector\<close>

lemma text_scan_skip:
  "\<not> has_link_target a \<Longrightarrow> text_scan join cur (as @ a # bs) = text_scan join cur (as @ bs)"
  by (induction as) (auto simp: has_link_target_def split: option.splits)

lemma text_scan_result:
  "text_scan join cur as = Inr (Some u) \<Longrightarrow>
   \<exists>a\<in>set as. \<exists>h. href a = Some h \<and> h \<noteq> [] \<and> join cur h = Inr u"
  by (induction as) (auto simp: resolved_def split: option.splits if_splits sum.splits)

lemma find_next_fallthrough:
  "find (\<lambda>a. py ''next'' \<in> set (rel a)) (anchors html) = Some link \<Longrightarrow> \<not> has_link_target link \<Longrightarrow>
   find_next_page_url join html cur = text_scan join cur (anchors html)"
  by (auto simp: find_next_page_url_def has_link_target_def split: option.splits)

lemma find_next_result:
  assumes "find_next_page_url join html cur = Inr (Some u)"
  shows "\<exists>a\<in>set (anchors html). \<exists>h. href a = Some h \<and> h \<noteq> [] \<and> join cur h = Inr u"
proof (cases "find_next_page_url join html cur = text_scan join cur (anchors html)")
  case True
  with assms text_scan_result show ?thesis by metis
next
  case False
  then obtain link h where l: "find (\<lambda>a. py ''next'' \<in> set (rel a)) (anchors html) = Some link"
    "href link = Some h" "h \<noteq> []" "find_next_page_url join html cur = resolved join cur h"
    by (auto simp: find_next_page_url_def split: option.splits if_splits)
  from l(1) have "link \<in> set (anchors html)" by (auto simp: find_Some_iff)
  moreover from l(4) assms have "join cur h = Inr u" by (auto simp: resolved_def split: sum.splits)
  ultimately show ?thesis using l(2,3) by blast
qed


lemma urljoin_page2:
  "urljoin (py ''https://x.test/a/b?page=1'') (py ''page=2'') = Inr (py ''https://x.test/a/page=2'')"
  by code_simp

lemma urljoin_query_page2:
  "urljoin (py ''https://x.test/a/b?page=1'') (py ''?page=2'') = Inr (py ''https://x.test/a/b?page=2'')"
  by code_simp

lemma next_text_matches: "lower (strip (py ''Next'')) \<in> set possible_texts"
  by (simp add: py_def lower_def lower_cp_def strip_def lstrip_def rstrip_def isspace_def possible_texts_def)

lemma next_raquo_matches: "lower (strip (py ''Next '' @ [187])) \<in> set possible_texts"
  by (simp add: py_def lower_def lower_cp_def strip_def lstrip_def rstrip_def isspace_def possible_texts_def)

lemma py_nonempty: "py ''page=2'' \<noteq> [] \<and> py ''?page=2'' \<noteq> []"
  by (simp add: py_def)

lemma example_scan:
  "text_scan urljoin (py ''https://x.test/a/b?page=1'') example_anchors
     = Inr (Some (py ''https://x.test/a/b?page=2''))"
  by (simp add: example_anchors_def next_raquo_matches py_nonempty resolved_def urljoin_query_page2)

lemma example_first_rel:
  "find (\<lambda>a. py ''next'' \<in> set (rel a)) example_anchors = Some (example_anchors ! 0) \<and>
   \<not> has_link_target (example_anchors ! 0) \<and> \<not> has_link_target (example_anchors ! 1) \<and>
   example_anchors = [example_anchors ! 0] @ example_anchors ! 1 # [example_anchors ! 2]"
  by (simp add: example_anchors_def has_link_target_def)

text \<open>
  C3 (amended). For the current page URL \<open>https://x.test/a/b?page=1\<close> and the relative
  link target \<open>page=2\<close>, found through \<open>rel="next"\<close> or through the anchor text, the
  Pagination Detector returns \<open>https://x.test/a/page=2\<close>: the target replaces the last
  path segment and the query of the current URL is dropped. It returns
  \<open>https://x.test/a/b?page=2\<close> for the link target \<open>?page=2\<close>.
\<close>

theorem next_link_resolution:
  "find_next_page_url urljoin (link_page [py ''next''] [] (py ''page=2'')) (py ''https://x.test/a/b?page=1'')
     = Inr (Some (py ''https://x.test/a/page=2'')) \<and>
   find_next_page_url urljoin (link_page [] (py ''Next'') (py ''page=2'')) (py ''https://x.test/a/b?page=1'')
     = Inr (Some (py ''https://x.test/a/page=2'')) \<and>
   find_next_page_url urljoin (link_page [py ''next''] [] (py ''?page=2'')) (py ''https://x.test/a/b?page=1'')
     = Inr (Some (py ''https://x.test/a/b?page=2''))"
  by (simp add: find_next_page_url_def link_page_def py_nonempty resolved_def next_text_matches
      urljoin_page2 urljoin_query_page2)

text \<open>
  C3 as stated fails: for the link target \<open>page=2\<close> the result is not
  \<open>https://x.test/a/b?page=2\<close>.
\<close>

theorem next_link_resolution_counterexample:
  "find_next_page_url urljoin (link_page [py ''next''] [] (py ''page=2'')) (py ''https://x.test/a/b?page=1'')
     \<noteq> Inr (Some (py ''https://x.test/a/b?page=2''))"
proof -
  have "py ''https://x.test/a/page=2'' \<noteq> py ''https://x.test/a/b?page=2''"
    by (simp add: py_def)
  then show ?thesis
    by (simp add: find_next_page_url_def link_page_def py_nonempty resolved_def urljoin_page2)
qed

text \<open>
  C10. An anchor without a link target never produces a result and never stops the
  search. If the first \<open>rel="next"\<close> anchor has no (or an empty) \<open>href\<close>, the detector
  gives what the text-based scan gives; in the text-based scan an anchor without a link
  target is skipped whatever its text, the anchors after it being considered as if it were
  not there; and every URL the detector returns is the resolution of the non-empty
  \<open>href\<close> of some anchor of the page.
\<close>

theorem anchor_without_target_skipped:
  "(find (\<lambda>a. py ''next'' \<in> set (rel a)) (anchors html) = Some link \<and> \<not> has_link_target link \<longrightarrow>
      find_next_page_url join html cur = text_scan join cur (anchors html)) \<and>
   (\<not> has_link_target a \<longrightarrow> text_scan join cur (as @ a # bs) = text_scan join cur (as @ bs)) \<and>
   (find_next_page_url join html cur = Inr (Some u) \<longrightarrow>
      (\<exists>a\<in>set (anchors html). \<exists>h. href a = Some h \<and> h \<noteq> [] \<and> join cur h = Inr u))"
  using find_next_fallthrough [of html link join cur] text_scan_skip [of a join cur as bs]
    find_next_result [of join html cur u]
  by blast

theorem anchor_without_target_skipped_witness:
  "find (\<lambda>a. py ''next'' \<in> set (rel a)) (anchors \<lparr>html_tables = [], anchors = example_anchors\<rparr>)
     = Some (example_anchors ! 0) \<and> \<not> has_link_target (example_anchors ! 0) \<and>
   \<not> has_link_target (example_anchors ! 1) \<and>
   find_next_page_url urljoin \<lparr>html_tables = [], anchors = example_anchors\<rparr> (py ''https://x.test/a/b?page=1'')
     = Inr (Some (py ''https://x.test/a/b?page=2'')) \<and>
   text_scan urljoin (py ''https://x.test/a/b?page=1'') ([example_anchors ! 0] @ [example_anchors ! 2])
     = Inr (Some (py ''https://x.test/a/b?page=2'')) \<and>
   (\<exists>a\<in>set example_anchors. \<exists>h. href a = Some h \<and> h \<noteq> [] \<and>
      urljoin (py ''https://x.test/a/b?page=1'') h = Inr (py ''https://x.test/a/b?page=2''))"
proof -
  let ?html = "\<lparr>html_tables = [], anchors = example_anchors\<rparr>"
  let ?cur = "py ''https://x.test/a/b?page=1''"
  note T = anchor_without_target_skipped [of ?html "example_anchors ! 0" urljoin ?cur
      "example_anchors ! 1" "[example_anchors ! 0]" "[example_anchors ! 2]"
      "py ''https://x.test/a/b?page=2''"]
  have a: "find (\<lambda>a. py ''next'' \<in> set (rel a)) (anchors ?html) = Some (example_anchors ! 0)"
    using example_first_rel by simp
  have b: "\<not> has_link_target (example_anchors ! 0)" "\<not> has_link_target (example_anchors ! 1)"
    using example_first_rel by simp_all
  have c: "find_next_page_url urljoin ?html ?cur = Inr (Some (py ''https://x.test/a/b?page=2''))"
    using T a b(1) example_scan by simp
  have d: "text_scan urljoin ?cur ([example_anchors ! 0] @ [example_anchors ! 2])
     = Inr (Some (py ''https://x.test/a/b?page=2''))"
    using T b(2) example_first_rel example_scan by metis
  have e: "\<exists>a\<in>set example_anchors. \<exists>h. href a = Some h \<and> h \<noteq> [] \<and>
      urljoin ?cur h = Inr (py ''https://x.test/a/b?page=2'')"
    using T c by simp
  from a b c d e show ?thesis by blast
qed

section \<open>Properties of the Merger and Deduplicator\<close>

lemma set_union_labels: "set (union_labels acc cs) = set acc \<union> set cs"
  by (induction cs arbitrary: acc) auto

lemma distinct_union_labels: "distinct acc \<Longrightarrow> distinct (union_labels acc cs)"
  by (induction cs arbitrary: acc) auto

lemma set_foldl_union_labels:
  "set (foldl union_labels acc ls) = set acc \<union> (\<Union>l\<in>set ls. set l)"
  by (induction ls arbitrary: acc) (auto simp: set_union_labels)

lemma distinct_foldl_union_labels: "distinct acc \<Longrightarrow> distinct (foldl union_labels acc ls)"
  by (induction ls arbitrary: acc) (auto simp: distinct_union_labels)

lemma columns_pd_concat: "set (columns (pd_concat fs)) = (\<Union>df\<in>set fs. set (columns df))"
  by (simp add: pd_concat_def Let_def set_foldl_union_labels)

lemma distinct_columns_pd_concat: "distinct (columns (pd_concat fs))"
  by (simp add: pd_concat_def Let_def distinct_foldl_union_labels)

lemma rows_pd_concat:
  "rows (pd_concat fs) = concat (map (\<lambda>df. map (reindex_row (columns (pd_concat fs)) df) (rows df)) fs)"
  by (simp add: pd_concat_def Let_def)


lemma cell_of_map: "c \<in> set cols \<Longrightarrow> cell_of cols (map f cols) c = f c"
  by (simp add: cell_of_def map_of_zip_map)


lemma length_reindex_row: "length (reindex_row cols df r) = length cols"
  by (simp add: reindex_row_def)

lemma wf_pd_concat: "wf_table (pd_concat fs)"
  by (auto simp: wf_table_def distinct_columns_pd_concat rows_pd_concat list_all_iff length_reindex_row)






lemma example_frames_wf: "example_frames \<noteq> [] \<and> list_all wf_table example_frames"
  by (simp add: example_frames_def wf_table_def py_def)

lemma example_concat: "pd_concat example_frames = example_big"
  by (simp add: example_frames_def example_big_def pd_concat_def reindex_row_def cell_of_def py_def)

lemma example_dedup_cols: "dedup_cols example_big = [py ''Pos'', py ''No'', py ''Name'']"
  by (simp add: dedup_cols_def example_big_def py_def lower_def lower_cp_def)

lemma example_merge: "merge_frames example_frames = example_merged"
proof -
  have "drop_duplicates [py ''Pos'', py ''No'', py ''Name''] example_big = example_merged"
    by (simp add: drop_duplicates_def row_key_def cell_of_def example_big_def example_merged_def py_def)
  then show ?thesis
    using example_frames_wf by (simp add: merge_frames_def example_concat example_dedup_cols Let_def)
qed





section \<open>Properties of the Column Normalizer\<close>

lemma gap_at_Cons: "gap_at (a # s) (Suc k) = gap_at s k"
  by (simp add: gap_at_def)

lemma gap_at_0: "gap_at (a # b # s) 0 = (isspace a \<and> isspace b)"
  by (simp add: gap_at_def)

lemma has_gap_iff: "has_gap s \<longleftrightarrow> (\<exists>k. gap_at s k)"
proof (induction s rule: has_gap.induct)
  case (1 a b s)
  have "(\<exists>k. gap_at (a # b # s) k) \<longleftrightarrow> gap_at (a # b # s) 0 \<or> (\<exists>k. gap_at (a # b # s) (Suc k))"
    by (metis not0_implies_Suc)
  then show ?case using 1 by (simp only: gap_at_0 gap_at_Cons has_gap.simps)
qed (simp_all add: gap_at_def)

lemma before_gap_first:
  "gap_at s k \<Longrightarrow> (\<forall>j<k. \<not> gap_at s j) \<Longrightarrow> before_gap s = take k s"
proof (induction s arbitrary: k rule: before_gap.induct)
  case (1 a b s)
  show ?case
  proof (cases "isspace a \<and> isspace b")
    case True
    then have "gap_at (a # b # s) 0" by (simp add: gap_at_0)
    with "1.prems"(2) have "k = 0" by (cases k) auto
    with True show ?thesis by simp
  next
    case False
    then have n0: "\<not> gap_at (a # b # s) 0" by (simp add: gap_at_0)
    with "1.prems"(1) obtain k' where k: "k = Suc k'" by (cases k) auto
    from "1.prems"(1) k have g: "gap_at (b # s) k'" by (simp add: gap_at_Cons)
    have "\<forall>j<k'. \<not> gap_at (b # s) j"
    proof (intro allI impI)
      fix j assume "j < k'"
      then have "Suc j < k" using k by simp
      with "1.prems"(2) have "\<not> gap_at (a # b # s) (Suc j)" by blast
      then show "\<not> gap_at (b # s) j" by (simp add: gap_at_Cons)
    qed
    with "1.IH" [OF False g] have "before_gap (b # s) = take k' (b # s)" by blast
    with False k show ?thesis by simp
  qed
qed (simp_all add: gap_at_def)

lemma before_gap_id: "\<not> has_gap s \<Longrightarrow> before_gap s = s"
  by (induction s rule: before_gap.induct) auto

lemma before_gap_none: "(\<forall>k. \<not> gap_at s k) \<Longrightarrow> before_gap s = s"
  by (simp add: before_gap_id has_gap_iff)

lemma before_gap_Cons: "before_gap (b # s) = [] \<or> (\<exists>t. before_gap (b # s) = b # t)"
  by (cases s) auto

lemma no_gap_before_gap: "\<not> has_gap (before_gap s)"
proof (induction s rule: before_gap.induct)
  case (1 a b s)
  show ?case
  proof (cases "isspace a \<and> isspace b")
    case True
    then show ?thesis by simp
  next
    case False
    from before_gap_Cons [of b s] show ?thesis
    proof
      assume "before_gap (b # s) = []"
      with False show ?thesis by simp
    next
      assume "\<exists>t. before_gap (b # s) = b # t"
      then obtain t where t: "before_gap (b # s) = b # t" by blast
      with "1.IH" [OF False] have "\<not> has_gap (b # t)" by simp
      with False t show ?thesis by simp
    qed
  qed
qed simp_all

lemma gap_at_append: "gap_at t k \<Longrightarrow> gap_at (p @ t @ q) (length p + k)"
  by (simp add: gap_at_def nth_append)

lemma has_gap_sublist: "has_gap t \<Longrightarrow> has_gap (p @ t @ q)"
  unfolding has_gap_iff using gap_at_append by blast

lemma strip_sublist: "\<exists>p q. s = p @ strip s @ q"
proof -
  have 1: "s = rstrip s @ rev (takeWhile isspace (rev s))"
    by (simp add: rstrip_def) (metis rev_append rev_rev_ident takeWhile_dropWhile_id)
  have 2: "rstrip s = takeWhile isspace (rstrip s) @ strip s"
    by (simp add: strip_def lstrip_def)
  from 1 2 have "s = takeWhile isspace (rstrip s) @ strip s @ rev (takeWhile isspace (rev s))"
    by (metis append.assoc)
  then show ?thesis by blast
qed

lemma no_gap_strip: "\<not> has_gap s \<Longrightarrow> \<not> has_gap (strip s)"
  using strip_sublist [of s] has_gap_sublist by metis

lemma strip_fixed:
  assumes "s = [] \<or> (\<not> isspace (hd s) \<and> \<not> isspace (last s))"
  shows "strip s = s"
proof (cases "s = []")
  case True
  then show ?thesis by (simp add: strip_def lstrip_def rstrip_def)
next
  case False
  with assms have h: "\<not> isspace (hd s)" and l: "\<not> isspace (last s)" by auto
  from False have "rev s = last s # rev (butlast s)"
    by (metis append_butlast_last_id rev.simps(2) rev_swap)
  then have "dropWhile isspace (rev s) = dropWhile isspace (last s # rev (butlast s))"
    by (rule arg_cong)
  with l \<open>rev s = last s # rev (butlast s)\<close> have "dropWhile isspace (rev s) = rev s"
    by (simp only: dropWhile.simps if_False)
  then have "rstrip s = s" by (simp add: rstrip_def)
  moreover from False h have "dropWhile isspace s = s" by (cases s) auto
  ultimately show ?thesis by (simp add: strip_def lstrip_def)
qed

lemma rstrip_last: "rstrip s = [] \<or> \<not> isspace (last (rstrip s))"
proof (cases "dropWhile isspace (rev s) = []")
  case True
  then show ?thesis by (simp add: rstrip_def)
next
  case False
  then have "\<not> isspace (hd (dropWhile isspace (rev s)))" by (rule hd_dropWhile)
  with False show ?thesis by (simp add: rstrip_def last_rev)
qed

lemma strip_ends: "strip s = [] \<or> (\<not> isspace (hd (strip s)) \<and> \<not> isspace (last (strip s)))"
proof (cases "strip s = []")
  case True
  then show ?thesis by simp
next
  case False
  then have ne: "dropWhile isspace (rstrip s) \<noteq> []" by (simp add: strip_def lstrip_def)
  then have h: "\<not> isspace (hd (strip s))" by (simp add: strip_def lstrip_def hd_dropWhile)
  from ne have "rstrip s \<noteq> []" by auto
  with rstrip_last [of s] have l: "\<not> isspace (last (rstrip s))" by simp
  have "rstrip s = takeWhile isspace (rstrip s) @ strip s" by (simp add: strip_def lstrip_def)
  with False have "last (rstrip s) = last (strip s)" by (metis last_appendR)
  with h l show ?thesis by simp
qed

lemma strip_idem: "strip (strip s) = strip s"
  using strip_ends [of s] by (rule strip_fixed)

lemma strip_fixed_iff: "strip s = s \<longleftrightarrow> (s = [] \<or> (\<not> isspace (hd s) \<and> \<not> isspace (last s)))"
  using strip_fixed [of s] strip_ends [of s] by auto

lemma clean_name_fixed: "strip s = s \<Longrightarrow> \<not> has_gap s \<Longrightarrow> clean_name (Str s) = Str s"
  by (simp add: clean_name_def astype_str_def before_gap_id)

lemma clean_name_clean: "\<exists>s. clean_name v = Str s \<and> strip s = s \<and> \<not> has_gap s"
  by (simp add: clean_name_def strip_idem no_gap_strip no_gap_before_gap)


lemma map_of_update_row:
  "length r = length cols \<Longrightarrow>
   map_of (zip cols (map (\<lambda>(l, v). if l = c then f v else v) (zip cols r))) c'
     = map_option (\<lambda>v. if c' = c then f v else v) (map_of (zip cols r) c')"
  by (induction r cols rule: list_induct2) auto

lemma cell_of_update_row:
  assumes "length r = length cols"
  shows "cell_of cols (map (\<lambda>(l, v). if l = c then f v else v) (zip cols r)) c'
     = (if c' = c \<and> c' \<in> set cols then f (cell_of cols r c') else cell_of cols r c')"
proof (cases "map_of (zip cols r) c'")
  case None
  with assms have "c' \<notin> set cols" by (metis map_of_zip_is_None)
  with None show ?thesis by (simp add: cell_of_def map_of_update_row [OF assms])
next
  case (Some v)
  with assms have "c' \<in> set cols" by (metis map_of_zip_is_None option.distinct(1))
  with Some show ?thesis by (auto simp: cell_of_def map_of_update_row [OF assms])
qed

lemma columns_normalize: "columns (normalize_name_column df) = columns df"
  by (simp add: normalize_name_column_def update_column_def)

lemma length_rows_normalize: "length (rows (normalize_name_column df)) = length (rows df)"
  by (simp add: normalize_name_column_def update_column_def)

lemma wf_row: "wf_table df \<Longrightarrow> r \<in> set (rows df) \<Longrightarrow> length r = length (columns df)"
  by (simp add: wf_table_def list_all_iff)

lemma cell_of_normalize:
  assumes "wf_table df" and "i < length (rows df)"
  shows "cell_of (columns df) (rows (normalize_name_column df) ! i) c
     = (if c = py ''Name'' \<and> c \<in> set (columns df) then clean_name (cell_of (columns df) (rows df ! i) c)
        else cell_of (columns df) (rows df ! i) c)"
proof -
  from assms have len: "length (rows df ! i) = length (columns df)" by (simp add: wf_row)
  show ?thesis
  proof (cases "py ''Name'' \<in> set (columns df)")
    case True
    then have "rows (normalize_name_column df) ! i
        = map (\<lambda>(l, v). if l = py ''Name'' then clean_name v else v) (zip (columns df) (rows df ! i))"
      using assms(2) by (simp add: normalize_name_column_def update_column_def)
    then show ?thesis by (simp add: cell_of_update_row [OF len])
  next
    case False
    then show ?thesis by (auto simp: normalize_name_column_def)
  qed
qed

lemma wf_normalize: "wf_table df \<Longrightarrow> wf_table (normalize_name_column df)"
  by (auto simp: wf_table_def normalize_name_column_def update_column_def list_all_iff)

lemma gap_at_take: "gap_at (take (Suc (Suc k)) s) j \<longleftrightarrow> gap_at s j \<and> j \<le> k"
  by (auto simp: gap_at_def)

lemma first_gap_by_take: "(\<forall>j<Suc k. \<not> gap_at s j) \<longleftrightarrow> \<not> has_gap (take (Suc (Suc k)) s)"
  by (auto simp: has_gap_iff gap_at_take less_Suc_eq_le)

text \<open>
  C7. In a frame with a Name column, the Name value of every row is replaced as follows,
  all other values and the shape of the frame staying as they are. If the value, as text,
  contains a run of two or more whitespace characters, the first of which starts at
  position \<open>k\<close>, the new value is the text before position \<open>k\<close>, trimmed; if it contains
  no such run, the new value is the trimmed text. In particular
  \<open>Alice Smith  Cycling Club ABC\<close> becomes \<open>Alice Smith\<close> and \<open>Bob Jones\<close> stays.
\<close>

theorem name_cleanup:
  assumes "wf_table df" and "py ''Name'' \<in> set (columns df)" and "i < length (rows df)"
  shows "columns (normalize_name_column df) = columns df \<and>
    length (rows (normalize_name_column df)) = length (rows df) \<and>
    (\<forall>k. gap_at (name_text df i) k \<and> (\<forall>j<k. \<not> gap_at (name_text df i) j) \<longrightarrow>
         cleaned_name df i = Str (strip (take k (name_text df i)))) \<and>
    ((\<forall>k. \<not> gap_at (name_text df i) k) \<longrightarrow> cleaned_name df i = Str (strip (name_text df i))) \<and>
    (\<forall>c. c \<noteq> py ''Name'' \<longrightarrow>
         cell_of (columns df) (rows (normalize_name_column df) ! i) c = cell_of (columns df) (rows df ! i) c) \<and>
    clean_name (Str (py ''Alice Smith  Cycling Club ABC'')) = Str (py ''Alice Smith'') \<and>
    clean_name (Str (py ''Bob Jones'')) = Str (py ''Bob Jones'')"
proof -
  have c: "cleaned_name df i = Str (strip (before_gap (name_text df i)))"
    using assms by (simp add: cleaned_name_def name_text_def cell_of_normalize clean_name_def)
  have 1: "\<forall>k. gap_at (name_text df i) k \<and> (\<forall>j<k. \<not> gap_at (name_text df i) j) \<longrightarrow>
         cleaned_name df i = Str (strip (take k (name_text df i)))"
    using c before_gap_first by auto
  have 2: "(\<forall>k. \<not> gap_at (name_text df i) k) \<longrightarrow> cleaned_name df i = Str (strip (name_text df i))"
    using c before_gap_none by auto
  have 3: "\<forall>c. c \<noteq> py ''Name'' \<longrightarrow>
         cell_of (columns df) (rows (normalize_name_column df) ! i) c = cell_of (columns df) (rows df ! i) c"
    using assms by (simp add: cell_of_normalize)
  have 4: "clean_name (Str (py ''Alice Smith  Cycling Club ABC'')) = Str (py ''Alice Smith'')"
    by (simp add: clean_name_def astype_str_def py_def isspace_def strip_def lstrip_def rstrip_def)
  have 5: "clean_name (Str (py ''Bob Jones'')) = Str (py ''Bob Jones'')"
    by (simp add: clean_name_def astype_str_def py_def isspace_def strip_def lstrip_def rstrip_def)
  from 1 2 3 4 5 show ?thesis by (simp add: columns_normalize length_rows_normalize)
qed

lemma example_names_wf:
  "wf_table example_names \<and> py ''Name'' \<in> set (columns example_names) \<and> length (rows example_names) = 2"
  by (simp add: example_names_def wf_table_def py_def)

lemma example_name_texts:
  "name_text example_names 0 = py ''Alice Smith  Cycling Club ABC'' \<and>
   name_text example_names 1 = py ''Bob Jones''"
  by (simp add: name_text_def example_names_def cell_of_def astype_str_def py_def)

lemma example_alice_gap:
  "gap_at (py ''Alice Smith  Cycling Club ABC'') 11 \<and> (\<forall>j<11. \<not> gap_at (py ''Alice Smith  Cycling Club ABC'') j) \<and>
   take 11 (py ''Alice Smith  Cycling Club ABC'') = py ''Alice Smith''"
proof -
  have "gap_at (py ''Alice Smith  Cycling Club ABC'') 11"
    by (simp add: gap_at_def py_def isspace_def)
  moreover have "\<not> has_gap (take (Suc (Suc 10)) (py ''Alice Smith  Cycling Club ABC''))"
    by (simp add: py_def isspace_def)
  then have "\<forall>j<Suc 10. \<not> gap_at (py ''Alice Smith  Cycling Club ABC'') j"
    using first_gap_by_take [of 10 "py ''Alice Smith  Cycling Club ABC''"] by blast
  moreover have "take 11 (py ''Alice Smith  Cycling Club ABC'') = py ''Alice Smith''"
    by (simp add: py_def)
  ultimately show ?thesis by simp
qed

lemma example_bob_no_gap: "\<forall>k. \<not> gap_at (py ''Bob Jones'') k"
proof -
  have "\<not> has_gap (py ''Bob Jones'')" by (simp add: py_def isspace_def)
  then show ?thesis by (simp add: has_gap_iff)
qed

lemma strip_alice: "strip (py ''Alice Smith'') = py ''Alice Smith'' \<and> strip (py ''Bob Jones'') = py ''Bob Jones''"
  by (simp add: py_def isspace_def strip_def lstrip_def rstrip_def)

theorem name_cleanup_witness:
  "wf_table example_names \<and> py ''Name'' \<in> set (columns example_names) \<and>
   0 < length (rows example_names) \<and> 1 < length (rows example_names) \<and>
   gap_at (name_text example_names 0) 11 \<and>
   list_all (\<lambda>j. \<not> gap_at (name_text example_names 0) j) [0..<11] \<and>
   cleaned_name example_names 0 = Str (py ''Alice Smith'') \<and>
   (\<forall>k. \<not> gap_at (name_text example_names 1) k) \<and>
   cleaned_name example_names 1 = Str (py ''Bob Jones'')"
proof -
  have h: "wf_table example_names" "py ''Name'' \<in> set (columns example_names)"
    "0 < length (rows example_names)" "1 < length (rows example_names)"
    using example_names_wf by simp_all
  from name_cleanup [OF h(1,2,3)] example_name_texts example_alice_gap strip_alice
  have a: "cleaned_name example_names 0 = Str (py ''Alice Smith'')" by metis
  from name_cleanup [OF h(1,2,4)] example_name_texts example_bob_no_gap strip_alice
  have b: "cleaned_name example_names 1 = Str (py ''Bob Jones'')" by metis
  from h a b example_name_texts example_alice_gap example_bob_no_gap show ?thesis
    by (simp add: list_all_iff)
qed

lemma requested_distinct: "distinct REQUESTED_COLUMNS \<and> py ''Name'' \<in> set REQUESTED_COLUMNS"
  by (simp add: REQUESTED_COLUMNS_def py_def)

lemma ensure_columns_id: "set cols \<subseteq> set (columns df) \<Longrightarrow> ensure_columns cols df = df"
  by (induction cols arbitrary: df) auto

lemma wf_add_column: "wf_table df \<Longrightarrow> col \<notin> set (columns df) \<Longrightarrow> wf_table (add_column df col)"
  by (auto simp: wf_table_def add_column_def list_all_iff)

lemma wf_ensure_columns: "wf_table df \<Longrightarrow> wf_table (ensure_columns cols df)"
  by (induction cols arbitrary: df) (auto simp: wf_add_column)

lemma columns_ensure_columns: "set (columns (ensure_columns cols df)) = set (columns df) \<union> set cols"
  by (induction cols arbitrary: df) (auto simp: add_column_def)

lemma cell_of_self:
  assumes "distinct cols" and "length r = length cols"
  shows "map (cell_of cols r) cols = r"
proof (rule nth_equalityI)
  show "length (map (cell_of cols r) cols) = length r" using assms by simp
next
  fix i assume "i < length (map (cell_of cols r) cols)"
  then have "i < length cols" by simp
  then show "map (cell_of cols r) cols ! i = r ! i"
    using assms by (simp add: cell_of_def map_of_zip_nth)
qed

lemma cell_of_zip_member:
  assumes "distinct cols" and "length r = length cols" and "(l, v) \<in> set (zip cols r)"
  shows "cell_of cols r l = v"
proof -
  from assms(1,2) have "distinct (map fst (zip cols r))" by simp
  then have "map_of (zip cols r) l = Some v" using assms(3) by (rule map_of_is_SomeI)
  then show ?thesis by (simp add: cell_of_def)
qed

lemma update_row_id:
  assumes "distinct cols" and "length r = length cols" and "f (cell_of cols r c) = cell_of cols r c"
  shows "map (\<lambda>(l, v). if l = c then f v else v) (zip cols r) = r"
proof -
  have "map (\<lambda>(l, v). if l = c then f v else v) (zip cols r) = map snd (zip cols r)"
  proof (rule map_cong [OF refl])
    fix x assume x: "x \<in> set (zip cols r)"
    obtain l v where lv: "x = (l, v)" by (cases x)
    with x assms(1,2) have "cell_of cols r l = v" by (simp add: cell_of_zip_member)
    with assms(3) lv show "(case x of (l, v) \<Rightarrow> if l = c then f v else v) = snd x" by auto
  qed
  with assms(2) show ?thesis by simp
qed

lemma normalized_fixed:
  assumes "already_normalized rs"
  shows "select_and_order_columns rs = rs"
proof -
  from assms have cols: "columns rs = REQUESTED_COLUMNS" by (simp add: already_normalized_def)
  have rws: "length r = length REQUESTED_COLUMNS \<and>
      clean_name (cell_of REQUESTED_COLUMNS r (py ''Name'')) = cell_of REQUESTED_COLUMNS r (py ''Name'')"
    if "r \<in> set (rows rs)" for r
  proof -
    from assms that have l: "length r = length REQUESTED_COLUMNS"
      and c: "(case cell_of REQUESTED_COLUMNS r (py ''Name'') of
           Str s \<Rightarrow> strip s = s \<and> \<not> has_gap s | NaN \<Rightarrow> False)"
      by (simp_all add: already_normalized_def list_all_iff)
    from c obtain s where "cell_of REQUESTED_COLUMNS r (py ''Name'') = Str s" "strip s = s" "\<not> has_gap s"
      by (cases "cell_of REQUESTED_COLUMNS r (py ''Name'')") auto
    with l show ?thesis by (simp add: clean_name_fixed)
  qed
  have e: "ensure_columns REQUESTED_COLUMNS rs = rs" using cols by (simp add: ensure_columns_id)
  have "map (\<lambda>r. map (\<lambda>(l, v). if l = py ''Name'' then clean_name v else v) (zip REQUESTED_COLUMNS r)) (rows rs)
      = map (\<lambda>r. r) (rows rs)"
    by (rule map_cong [OF refl]) (use rws requested_distinct in \<open>simp add: update_row_id\<close>)
  then have n: "normalize_name_column rs = rs"
    using cols by (simp add: normalize_name_column_def update_column_def)
  have "map (\<lambda>r. map (cell_of REQUESTED_COLUMNS r) REQUESTED_COLUMNS) (rows rs) = map (\<lambda>r. r) (rows rs)"
    by (rule map_cong [OF refl]) (use rws requested_distinct in \<open>simp add: cell_of_self\<close>)
  then have "project rs REQUESTED_COLUMNS = rs" using cols by (simp add: project_def)
  with e n show ?thesis by (simp add: select_and_order_columns_def)
qed

lemma select_normalized:
  assumes "wf_table df"
  shows "already_normalized (select_and_order_columns df)"
proof -
  let ?d1 = "ensure_columns REQUESTED_COLUMNS df"
  let ?d2 = "normalize_name_column ?d1"
  have wf1: "wf_table ?d1" using assms by (rule wf_ensure_columns)
  have name1: "py ''Name'' \<in> set (columns ?d1)"
    using requested_distinct by (simp add: columns_ensure_columns)
  have "length r = length REQUESTED_COLUMNS \<and>
        (case cell_of REQUESTED_COLUMNS r (py ''Name'') of
           Str s \<Rightarrow> strip s = s \<and> \<not> has_gap s | NaN \<Rightarrow> False)"
    if "r \<in> set (rows (select_and_order_columns df))" for r
  proof -
    from that obtain r2 where r2: "r2 \<in> set (rows ?d2)" "r = map (cell_of (columns ?d2) r2) REQUESTED_COLUMNS"
      by (auto simp: select_and_order_columns_def project_def)
    from r2(1) obtain i where i: "i < length (rows ?d1)" "r2 = rows ?d2 ! i"
      by (metis in_set_conv_nth length_rows_normalize)
    have "cell_of REQUESTED_COLUMNS r (py ''Name'') = cell_of (columns ?d2) r2 (py ''Name'')"
      using r2(2) requested_distinct by (simp add: cell_of_map)
    also have "\<dots> = clean_name (cell_of (columns ?d1) (rows ?d1 ! i) (py ''Name''))"
      using i name1 by (simp add: columns_normalize cell_of_normalize [OF wf1])
    finally obtain s where "cell_of REQUESTED_COLUMNS r (py ''Name'') = Str s" "strip s = s" "\<not> has_gap s"
      using clean_name_clean by metis
    with r2(2) show ?thesis by simp
  qed
  then show ?thesis
    by (simp add: already_normalized_def list_all_iff) (simp add: select_and_order_columns_def project_def)
qed

lemma example_select: "select_and_order_columns example_names = example_output"
proof -
  have e: "ensure_columns REQUESTED_COLUMNS example_names =
     \<lparr>columns = [py ''No'', py ''Name'', py ''Pos'', py ''Year of Birth'', py ''Time'',
         py ''Diff'', py ''Cat'', py ''Cat Pos'', py ''Cat Diff'', [9892], [9892] @ py '' Pos'',
         [9892] @ py '' Diff'', py ''Club'', py ''Pace'', py ''City'', py ''Status'', py ''UCI-ID''],
      rows = [[Str (py ''42''), Str (py ''Alice Smith  Cycling Club ABC''), Str [], Str [], Str [], Str [], Str [], Str [],
               Str [], Str [], Str [], Str [], Str [], Str [], Str [], Str [], Str []],
              [Str (py ''7''), Str (py ''Bob Jones''), Str [], Str [], Str [], Str [], Str [], Str [],
               Str [], Str [], Str [], Str [], Str [], Str [], Str [], Str [], Str []]]\<rparr>"
    by (simp add: REQUESTED_COLUMNS_def example_names_def add_column_def py_def)
  show ?thesis
    unfolding select_and_order_columns_def e
    by (simp add: normalize_name_column_def update_column_def project_def cell_of_def example_output_def
        REQUESTED_COLUMNS_def clean_name_def astype_str_def py_def isspace_def strip_def lstrip_def rstrip_def)
qed

text \<open>
  C9. The Column Normalizer is idempotent. A ResultSet that is already normalized (it has
  the requested columns, and every Name value is trimmed and free of runs of two or more
  whitespace characters) is left identical by the Normalizer; the result of the Normalizer
  on any frame is normalized in this sense, so that applying the Normalizer again yields
  an identical ResultSet.
\<close>

theorem normalizer_idempotent:
  "(already_normalized rs \<longrightarrow> select_and_order_columns rs = rs) \<and>
   (wf_table df \<longrightarrow> already_normalized (select_and_order_columns df) \<and>
      select_and_order_columns (select_and_order_columns df) = select_and_order_columns df)"
  using normalized_fixed [of rs] select_normalized [of df]
    normalized_fixed [of "select_and_order_columns df"] by blast

theorem normalizer_idempotent_witness:
  "wf_table example_names \<and> already_normalized example_output \<and>
   select_and_order_columns example_names = example_output \<and>
   select_and_order_columns example_output = example_output"
  using normalizer_idempotent [of example_output example_names] example_names_wf example_select
  by simp

section \<open>Properties of the Scrape Loop and of the main program\<close>

lemma fetched_append: "fetched (t @ t') = fetched t @ fetched t'"
  by (induction t rule: fetched.induct) auto

lemma loop_inv_initial: "loop_inv web start_url (initial_state start_url)"
  by (simp add: loop_inv_def trace_ok_def initial_state_def)

lemma current_url_Some:
  "current_url s = Some u \<Longrightarrow> url s = Some u \<and> u \<noteq> [] \<and> u \<notin> visited s"
  by (auto simp: current_url_def split: option.splits if_splits)

lemma current_url_None:
  "current_url s = None \<longleftrightarrow> url s = None \<or> url s = Some [] \<or> (\<exists>v. url s = Some v \<and> v \<in> visited s)"
  by (auto simp: current_url_def split: option.splits if_splits)

lemma loop_body_Inr:
  assumes "loop_body join web s u = Inr s'"
  shows "\<exists>html. web u = Inr html \<and> find_next_page_url join html u = Inr (url s') \<and>
     all_frames s' = all_frames s @ page_frames html \<and> visited s' = insert u (visited s) \<and>
     trace s' = trace s @ [Visit u, Fetch u]"
  using assms by (auto simp: loop_body_def Let_def split: sum.splits)

lemma loop_body_Inl:
  "loop_body join web s u = Inl (e, t) \<Longrightarrow> t = trace s @ [Visit u, Fetch u]"
  by (auto simp: loop_body_def Let_def split: sum.splits)

lemma page_frames_nonempty: "list_all (\<lambda>df. \<not> df_empty df) (page_frames html)"
  by (auto simp: page_frames_def df_empty_def strip_columns_def split: option.splits)

lemma trace_ok_step:
  assumes "trace_ok t" and "u \<notin> set (fetched t)"
  shows "trace_ok (t @ [Visit u, Fetch u])"
proof -
  have f: "fetched (t @ [Visit u, Fetch u]) = fetched t @ [u]" by (simp add: fetched_append)
  from assms(1) have "t @ [Visit u, Fetch u]
      = concat (map (\<lambda>u. [Visit u, Fetch u]) (fetched t)) @ [Visit u, Fetch u]"
    by (simp add: trace_ok_def)
  then have "t @ [Visit u, Fetch u] = concat (map (\<lambda>u. [Visit u, Fetch u]) (fetched t @ [u]))"
    by simp
  moreover from assms have "distinct (fetched t @ [u])" by (simp add: trace_ok_def)
  ultimately show ?thesis unfolding trace_ok_def f by blast
qed

lemma loop_inv_step:
  assumes inv: "loop_inv web start_url s" and cur: "current_url s = Some u"
    and body: "loop_body join web s u = Inr s'"
  shows "loop_inv web start_url s'"
proof -
  from loop_body_Inr [OF body] obtain html where b: "web u = Inr html"
    "all_frames s' = all_frames s @ page_frames html" "visited s' = insert u (visited s)"
    "trace s' = trace s @ [Visit u, Fetch u]" by blast
  from current_url_Some [OF cur] have c: "url s = Some u" "u \<notin> visited s" by simp_all
  from inv have i: "trace_ok (trace s)" "visited s = set (fetched (trace s))"
    "case fetched (trace s) of [] \<Rightarrow> url s = Some start_url | u # us \<Rightarrow> u = start_url"
    "all_frames s = concat (map (frames_at web) (fetched (trace s)))"
    "list_all (\<lambda>df. \<not> df_empty df) (all_frames s)"
    unfolding loop_inv_def by blast+
  have f: "fetched (trace s') = fetched (trace s) @ [u]" by (simp add: b(4) fetched_append)
  have 1: "trace_ok (trace s')" using i(1,2) c(2) b(4) by (simp add: trace_ok_step)
  have 2: "visited s' = set (fetched (trace s'))" using i(2) b(3) f by simp
  have 3: "case fetched (trace s') of [] \<Rightarrow> url s' = Some start_url | u # us \<Rightarrow> u = start_url"
    using i(3) c(1) f by (cases "fetched (trace s)") simp_all
  have 4: "all_frames s' = concat (map (frames_at web) (fetched (trace s')))"
    using i(4) b(1,2) f by (simp add: frames_at_def)
  have 5: "list_all (\<lambda>df. \<not> df_empty df) (all_frames s')"
    using i(5) b(2) page_frames_nonempty [of html] by simp
  from 1 2 3 4 5 show ?thesis by (simp add: loop_inv_def)
qed

lemma loop_inv_raise:
  assumes inv: "loop_inv web start_url s" and cur: "current_url s = Some u"
    and body: "loop_body join web s u = Inl (e, t)"
  shows "trace_ok t"
proof -
  from inv have "trace_ok (trace s)" "visited s = set (fetched (trace s))"
    unfolding loop_inv_def by blast+
  moreover from current_url_Some [OF cur] have "u \<notin> visited s" by simp
  ultimately show ?thesis using loop_body_Inl [OF body] by (simp add: trace_ok_step)
qed

lemma scrape_loop_inv:
  "loop_inv web start_url s \<Longrightarrow>
   (case scrape_loop n join web s of
      Done s' \<Rightarrow> loop_inv web start_url s' \<and> current_url s' = None
    | Raised e t \<Rightarrow> trace_ok t
    | OutOfFuel s' \<Rightarrow> loop_inv web start_url s')"
proof (induction n arbitrary: s)
  case 0
  then show ?case by simp
next
  case (Suc n)
  show ?case
  proof (cases "current_url s")
    case None
    with Suc.prems show ?thesis by simp
  next
    case (Some u)
    show ?thesis
    proof (cases "loop_body join web s u")
      case (Inl a)
      obtain e t where a: "a = (e, t)" by (cases a)
      with Inl loop_inv_raise [OF Suc.prems Some] have "trace_ok t" by simp
      with Some Inl a show ?thesis by simp
    next
      case (Inr s')
      from loop_inv_step [OF Suc.prems Some Inr] have "loop_inv web start_url s'" .
      from Suc.IH [OF this] Some Inr show ?thesis by simp
    qed
  qed
qed

lemma scrape_loop_add:
  "scrape_loop n join web s0 = OutOfFuel s \<Longrightarrow> scrape_loop (n + m) join web s0 = scrape_loop m join web s"
proof (induction n arbitrary: s0)
  case 0
  then show ?case by simp
next
  case (Suc n)
  from Suc.prems obtain u s1 where u: "current_url s0 = Some u" "loop_body join web s0 u = Inr s1"
    "scrape_loop n join web s1 = OutOfFuel s"
    by (auto split: option.splits sum.splits prod.splits)
  from Suc.IH [OF u(3)] u(1,2) show ?case by simp
qed

lemma scrape_loop_stops:
  "current_url s = None \<Longrightarrow> scrape_loop (Suc m) join web s = Done s"
  by simp

lemma scrape_loop_count:
  "scrape_loop n join web s0 = OutOfFuel s \<Longrightarrow>
   length (fetched (trace s)) = length (fetched (trace s0)) + n"
proof (induction n arbitrary: s0)
  case 0
  then show ?case by simp
next
  case (Suc n)
  from Suc.prems obtain u s1 where u: "current_url s0 = Some u" "loop_body join web s0 u = Inr s1"
    "scrape_loop n join web s1 = OutOfFuel s"
    by (auto split: option.splits sum.splits prod.splits)
  from loop_body_Inr [OF u(2)] have "trace s1 = trace s0 @ [Visit u, Fetch u]" by blast
  then have "length (fetched (trace s1)) = Suc (length (fetched (trace s0)))"
    by (simp add: fetched_append)
  with Suc.IH [OF u(3)] show ?case by simp
qed

lemma scrape_loop_terminates:
  assumes fin: "finite U"
    and closed: "\<forall>u html v. web u = Inr html \<and> find_next_page_url join html u = Inr (Some v) \<longrightarrow> v \<in> U"
  shows "visited s \<subseteq> U \<Longrightarrow> (\<forall>v. url s = Some v \<longrightarrow> v \<in> U) \<Longrightarrow> card (U - visited s) < n \<Longrightarrow>
         scrape_loop n join web s \<noteq> OutOfFuel s'"
proof (induction n arbitrary: s)
  case 0
  then show ?case by simp
next
  case (Suc n)
  show ?case
  proof (cases "current_url s")
    case None
    then show ?thesis by simp
  next
    case (Some u)
    from current_url_Some [OF Some] Suc.prems(2) have u: "u \<in> U" "u \<notin> visited s" by auto
    show ?thesis
    proof (cases "loop_body join web s u")
      case (Inl a)
      with Some show ?thesis by (cases a) simp
    next
      case (Inr s1)
      from loop_body_Inr [OF Inr] obtain html where h: "web u = Inr html"
        "find_next_page_url join html u = Inr (url s1)" "visited s1 = insert u (visited s)" by blast
      have 1: "visited s1 \<subseteq> U" using h(3) u(1) Suc.prems(1) by simp
      have 2: "\<forall>v. url s1 = Some v \<longrightarrow> v \<in> U" using closed h(1,2) by auto
      have e: "U - visited s1 = (U - visited s) - {u}" using h(3) by auto
      have "u \<in> U - visited s" using u by simp
      moreover have "finite (U - visited s)" using fin by simp
      ultimately have "card ((U - visited s) - {u}) < card (U - visited s)"
        by (rule card_Diff1_less [rotated])
      then have "card (U - visited s1) < card (U - visited s)" by (simp only: e)
      with Suc.prems(3) have 3: "card (U - visited s1) < n" by simp
      from Suc.IH [OF 1 2 3] Some Inr show ?thesis by simp
    qed
  qed
qed

lemma keep_first_nonempty: "rs \<noteq> [] \<Longrightarrow> keep_first key [] rs \<noteq> []"
  by (cases rs) simp_all

lemma merge_frames_nonempty:
  assumes "frames \<noteq> []" and "list_all (\<lambda>df. \<not> df_empty df) frames"
  shows "\<not> df_empty (merge_frames frames)"
proof -
  from assms obtain df rest where f: "frames = df # rest" "columns df \<noteq> []" "rows df \<noteq> []"
    by (cases frames) (auto simp: df_empty_def)
  let ?big = "pd_concat frames"
  have "set (columns df) \<subseteq> set (columns ?big)" using f(1) by (auto simp: columns_pd_concat)
  with f(2) have c: "columns ?big \<noteq> []" by auto
  have r: "rows ?big \<noteq> []" using f(1,3) by (simp add: rows_pd_concat)
  have "rows (merge_frames frames) \<noteq> []"
    using assms(1) r by (simp add: merge_frames_def Let_def drop_duplicates_def keep_first_nonempty)
  moreover have "columns (merge_frames frames) = columns ?big"
    using assms(1) by (simp add: merge_frames_def Let_def drop_duplicates_def)
  ultimately show ?thesis using c by (simp add: df_empty_def)
qed

lemma main_of_done:
  assumes "scrape_loop fuel join web (initial_state args_url) = Done s"
  shows "all_frames s = concat (map (frames_at web) (fetched (trace s))) \<and>
    (all_frames s = [] \<longrightarrow>
       main fuel join web args_url args_output
         = Some (Inr \<lparr>exit_code = 1, stdout = [],
             stderr = [py ''No data found: could not locate a suitable results table.''],
             written = []\<rparr>)) \<and>
    (all_frames s \<noteq> [] \<longrightarrow>
       main fuel join web args_url args_output
         = Some (Inr \<lparr>exit_code = 0,
             stdout = [py ''Wrote '' @ str_of_nat (length (rows (select_and_order_columns (merge_frames (all_frames s)))))
                        @ py '' rows to '' @ args_output],
             stderr = [],
             written = [(args_output, select_and_order_columns (merge_frames (all_frames s)))]\<rparr>))"
proof -
  from scrape_loop_inv [OF loop_inv_initial, of web args_url fuel join] assms
  have inv: "loop_inv web args_url s" by simp
  then have 1: "all_frames s = concat (map (frames_at web) (fetched (trace s)))"
    and ne: "list_all (\<lambda>df. \<not> df_empty df) (all_frames s)"
    unfolding loop_inv_def by blast+
  have sc: "scrape_all_pages fuel join web args_url = Some (Inr (merge_frames (all_frames s)))"
    using assms by (simp add: scrape_all_pages_def)
  have 2: "main fuel join web args_url args_output
         = Some (Inr \<lparr>exit_code = 1, stdout = [],
             stderr = [py ''No data found: could not locate a suitable results table.''],
             written = []\<rparr>)" if "all_frames s = []"
    using sc that by (simp add: main_def merge_frames_def df_empty_def)
  have 3: "main fuel join web args_url args_output
         = Some (Inr \<lparr>exit_code = 0,
             stdout = [py ''Wrote '' @ str_of_nat (length (rows (select_and_order_columns (merge_frames (all_frames s)))))
                        @ py '' rows to '' @ args_output],
             stderr = [],
             written = [(args_output, select_and_order_columns (merge_frames (all_frames s)))]\<rparr>)"
    if "all_frames s \<noteq> []"
    using sc merge_frames_nonempty [OF that ne] by (simp add: main_def Let_def len_def)
  from 1 2 3 show ?thesis by blast
qed

lemma main_terminates:
  assumes "finite U" and "args_url \<in> U"
    and "\<forall>u html v. web u = Inr html \<and> find_next_page_url join html u = Inr (Some v) \<longrightarrow> v \<in> U"
  shows "main (Suc (card U)) join web args_url args_output \<noteq> None"
proof -
  have "scrape_loop (Suc (card U)) join web (initial_state args_url) \<noteq> OutOfFuel s'" for s'
    by (rule scrape_loop_terminates [OF assms(1,3)]) (use assms(2) in \<open>simp_all add: initial_state_def\<close>)
  then have "scrape_all_pages (Suc (card U)) join web args_url \<noteq> None"
    by (cases "scrape_loop (Suc (card U)) join web (initial_state args_url)")
       (simp_all add: scrape_all_pages_def)
  then show ?thesis
    by (auto simp: main_def Let_def split: option.splits sum.splits)
qed

text \<open>
  C2. In every run of the Scrape Loop, cut off after any number \<open>n\<close> of iterations or
  not, no URL is fetched more than once, and the trace consists of pairs \<open>Visit u\<close>,
  \<open>Fetch u\<close>: each URL is added to the visited set immediately before it is fetched. The
  visited set is the set of the URLs fetched and contains the start URL once the first
  page has been fetched. When, after \<open>n\<close> iterations, the detected next-page URL is absent
  or already in the visited set, the loop ends in just that state, without another
  request, however many more iterations it is allowed; and the loop only ever ends
  normally with the next-page URL absent, empty or visited.
\<close>

theorem no_url_fetched_twice:
  "distinct (fetched (result_trace (scrape_loop n join web (initial_state start_url)))) \<and>
   result_trace (scrape_loop n join web (initial_state start_url))
     = concat (map (\<lambda>u. [Visit u, Fetch u])
         (fetched (result_trace (scrape_loop n join web (initial_state start_url))))) \<and>
   (scrape_loop n join web (initial_state start_url) = OutOfFuel s \<longrightarrow>
      visited s = set (fetched (trace s)) \<and> (0 < n \<longrightarrow> start_url \<in> visited s) \<and>
      ((url s = None \<or> (\<exists>v. url s = Some v \<and> v \<in> visited s)) \<longrightarrow>
         scrape_loop (n + Suc m) join web (initial_state start_url) = Done s)) \<and>
   (scrape_loop n join web (initial_state start_url) = Done s \<longrightarrow>
      visited s = set (fetched (trace s)) \<and>
      (url s = None \<or> url s = Some [] \<or> (\<exists>v. url s = Some v \<and> v \<in> visited s)))"
proof -
  let ?r = "scrape_loop n join web (initial_state start_url)"
  note inv = scrape_loop_inv [OF loop_inv_initial, of web start_url n join]
  have t: "trace_ok (result_trace ?r)"
    using inv by (cases ?r) (simp_all add: loop_inv_def)
  have o: "visited s = set (fetched (trace s)) \<and> (0 < n \<longrightarrow> start_url \<in> visited s) \<and>
      ((url s = None \<or> (\<exists>v. url s = Some v \<and> v \<in> visited s)) \<longrightarrow>
         scrape_loop (n + Suc m) join web (initial_state start_url) = Done s)"
    if r: "?r = OutOfFuel s"
  proof -
    from inv r have i: "loop_inv web start_url s" by simp
    then have v: "visited s = set (fetched (trace s))"
      and h: "case fetched (trace s) of [] \<Rightarrow> url s = Some start_url | u # us \<Rightarrow> u = start_url"
      unfolding loop_inv_def by blast+
    from scrape_loop_count [OF r] have len: "length (fetched (trace s)) = n"
      by (simp add: initial_state_def)
    have "start_url \<in> visited s" if "0 < n"
    proof -
      from that len obtain u us where "fetched (trace s) = u # us" by (cases "fetched (trace s)") auto
      with h v show ?thesis by simp
    qed
    moreover have "scrape_loop (n + Suc m) join web (initial_state start_url) = Done s"
      if "url s = None \<or> (\<exists>v. url s = Some v \<and> v \<in> visited s)"
    proof -
      from that have "current_url s = None" by (auto simp: current_url_None)
      then show ?thesis using scrape_loop_add [OF r, of "Suc m"] by simp
    qed
    ultimately show ?thesis using v by blast
  qed
  have d: "visited s = set (fetched (trace s)) \<and>
      (url s = None \<or> url s = Some [] \<or> (\<exists>v. url s = Some v \<and> v \<in> visited s))"
    if r: "?r = Done s"
  proof -
    from inv r have "loop_inv web start_url s" "current_url s = None" by simp_all
    then show ?thesis by (simp add: loop_inv_def current_url_None)
  qed
  from t o d show ?thesis unfolding trace_ok_def by blast
qed

text \<open>
  C5. When the Scrape Loop has ended normally in the state \<open>s\<close>: if no page that was
  fetched had a non-empty results table, the program exits with code 1, prints the
  diagnostic message to standard error and nothing to standard output, and does not
  invoke the Writer; otherwise it invokes the Writer once, for the normalized merged
  frame and the destination, prints the confirmation with the row count and the
  destination to standard output, and exits with code 0. On a site whose links stay in a
  finite set of URLs the program does finish, within one iteration per URL.
\<close>

theorem main_exit_code:
  "(scrape_loop fuel join web (initial_state args_url) = Done s \<longrightarrow>
      ((\<forall>u\<in>set (fetched (trace s)). frames_at web u = []) \<longrightarrow>
         main fuel join web args_url args_output
           = Some (Inr \<lparr>exit_code = 1, stdout = [],
               stderr = [py ''No data found: could not locate a suitable results table.''],
               written = []\<rparr>)) \<and>
      ((\<exists>u\<in>set (fetched (trace s)). frames_at web u \<noteq> []) \<longrightarrow>
         main fuel join web args_url args_output
           = Some (Inr \<lparr>exit_code = 0,
               stdout = [py ''Wrote '' @ str_of_nat (length (rows (select_and_order_columns (merge_frames (all_frames s)))))
                          @ py '' rows to '' @ args_output],
               stderr = [],
               written = [(args_output, select_and_order_columns (merge_frames (all_frames s)))]\<rparr>))) \<and>
   (finite U \<and> args_url \<in> U \<and>
    (\<forall>u html v. web u = Inr html \<and> find_next_page_url join html u = Inr (Some v) \<longrightarrow> v \<in> U) \<longrightarrow>
      main (Suc (card U)) join web args_url args_output \<noteq> None)"
proof -
  have a: "all_frames s = [] \<longleftrightarrow> (\<forall>u\<in>set (fetched (trace s)). frames_at web u = [])"
    if "scrape_loop fuel join web (initial_state args_url) = Done s"
    using main_of_done [OF that, of args_output] by simp
  show ?thesis
    using a main_of_done [of fuel join web args_url s args_output]
      main_terminates [of U args_url web join args_output]
    by blast
qed

lemma example_urls:
  "example_url1 \<noteq> example_url2 \<and> example_url2 \<noteq> example_url1 \<and> example_url1 \<noteq> [] \<and> example_url2 \<noteq> []"
  by (simp add: example_url1_def example_url2_def py_def)

lemma urljoin_back:
  "urljoin (py ''https://x.test/a/b?page=2'') (py ''?page=1'') = Inr (py ''https://x.test/a/b?page=1'')"
  by code_simp

lemma py_page1_nonempty: "py ''?page=1'' \<noteq> []"
  by (simp add: py_def)

lemma example_next1: "find_next_page_url urljoin example_page1 example_url1 = Inr (Some example_url2)"
  by (simp add: find_next_page_url_def example_page1_def example_url1_def example_url2_def
      next_raquo_matches py_nonempty resolved_def urljoin_query_page2)

lemma example_next2: "find_next_page_url urljoin example_page2 example_url2 = Inr (Some example_url1)"
  by (simp add: find_next_page_url_def example_page2_def example_url1_def example_url2_def
      py_page1_nonempty resolved_def urljoin_back)

lemma example_page_frames:
  "page_frames example_page1 @ page_frames example_page2 = example_frames \<and>
   page_frames example_page1 \<noteq> []"
proof -
  have 1: "extract_results_table example_page1 = Some (example_frames ! 0)"
    by (simp add: extract_results_table_def example_page1_def example_frames_def select_table_def
        fallback_taken_def strip_columns_def score_def typical_headers_def py_def strip_def
        lstrip_def rstrip_def isspace_def)
  have 2: "extract_results_table example_page2 = Some (example_frames ! 1)"
    by (simp add: extract_results_table_def example_page2_def example_frames_def select_table_def
        fallback_taken_def strip_columns_def score_def typical_headers_def py_def strip_def
        lstrip_def rstrip_def isspace_def)
  have 3: "strip_columns (example_frames ! 0) = example_frames ! 0 \<and>
           strip_columns (example_frames ! 1) = example_frames ! 1 \<and>
           \<not> df_empty (example_frames ! 0) \<and> \<not> df_empty (example_frames ! 1) \<and>
           example_frames = [example_frames ! 0, example_frames ! 1]"
    by (simp add: example_frames_def strip_columns_def df_empty_def py_def strip_def
        lstrip_def rstrip_def isspace_def)
  from 3 have "[example_frames ! 0] @ [example_frames ! 1] = example_frames" by simp
  with 3 show ?thesis unfolding page_frames_def 1 2 by simp
qed

lemma example_run:
  "scrape_loop (Suc (Suc 0)) urljoin example_web (initial_state example_url1) = OutOfFuel example_final_state"
  using example_page_frames example_urls
  by (simp add: initial_state_def current_url_def loop_body_def example_web_def example_next1
      example_next2 example_final_state_def)

lemma empty_run:
  "scrape_loop (Suc (Suc 0)) urljoin empty_web (initial_state example_url1)
     = Done \<lparr>all_frames = [], visited = {example_url1}, url = None,
             trace = [Visit example_url1, Fetch example_url1]\<rparr>"
  using example_urls
  by (simp add: initial_state_def current_url_def loop_body_def empty_web_def find_next_page_url_def
      page_frames_def extract_results_table_def)

lemma length_rows_select: "length (rows (select_and_order_columns df)) = length (rows df)"
proof -
  have "length (rows (ensure_columns cols d)) = length (rows d)" for cols d
    by (induction cols arbitrary: d) (auto simp: add_column_def)
  then show ?thesis
    by (simp add: select_and_order_columns_def project_def length_rows_normalize)
qed

lemma columns_select: "columns (select_and_order_columns df) = REQUESTED_COLUMNS"
  by (simp add: select_and_order_columns_def project_def)

lemma example_run_done:
  "scrape_loop (Suc (Suc (Suc 0))) urljoin example_web (initial_state example_url1) = Done example_final_state"
proof -
  have "current_url example_final_state = None"
    by (simp add: current_url_def example_final_state_def)
  then show ?thesis using scrape_loop_add [OF example_run, of "Suc 0"] by simp
qed

theorem no_url_fetched_twice_witness:
  "scrape_loop (Suc (Suc 0)) urljoin example_web (initial_state example_url1) = OutOfFuel example_final_state \<and>
   url example_final_state = Some example_url1 \<and> example_url1 \<in> visited example_final_state \<and>
   scrape_loop (Suc (Suc 0) + Suc 0) urljoin example_web (initial_state example_url1) = Done example_final_state \<and>
   fetched (trace example_final_state) = [example_url1, example_url2] \<and>
   distinct (fetched (trace example_final_state))"
proof -
  note T = no_url_fetched_twice [of "Suc (Suc 0)" urljoin example_web example_url1 example_final_state 0]
  have u: "url example_final_state = Some example_url1" "example_url1 \<in> visited example_final_state"
    by (simp_all add: example_final_state_def)
  have f: "fetched (trace example_final_state) = [example_url1, example_url2]"
    by (simp add: example_final_state_def)
  from T example_run u
  have "scrape_loop (Suc (Suc 0) + Suc 0) urljoin example_web (initial_state example_url1) = Done example_final_state"
    by blast
  moreover from T example_run have "distinct (fetched (trace example_final_state))" by simp
  ultimately show ?thesis using example_run u f by blast
qed

theorem main_exit_code_witness:
  "main (Suc (Suc (Suc 0))) urljoin example_web example_url1 (py ''results.csv'')
     = Some (Inr \<lparr>exit_code = 0, stdout = [py ''Wrote 3 rows to results.csv''], stderr = [],
         written = [(py ''results.csv'', select_and_order_columns example_merged)]\<rparr>) \<and>
   columns (select_and_order_columns example_merged) = REQUESTED_COLUMNS \<and>
   main (Suc (Suc 0)) urljoin empty_web example_url1 (py ''results.csv'')
     = Some (Inr \<lparr>exit_code = 1, stdout = [],
         stderr = [py ''No data found: could not locate a suitable results table.''], written = []\<rparr>) \<and>
   main (Suc (card {example_url1, example_url2})) urljoin example_web example_url1 (py ''results.csv'') \<noteq> None"
proof -
  let ?out = "py ''results.csv''"
  note d = example_run_done
  have ex: "\<exists>u\<in>set (fetched (trace example_final_state)). frames_at example_web u \<noteq> []"
    using example_page_frames by (simp add: example_final_state_def frames_at_def example_web_def)
  have m: "length (rows (select_and_order_columns (merge_frames (all_frames example_final_state)))) = 3"
    by (simp add: length_rows_select example_final_state_def example_merge example_merged_def)
  have s: "py ''Wrote '' @ str_of_nat 3 @ py '' rows to '' @ ?out = py ''Wrote 3 rows to results.csv''"
    by (simp add: str_of_nat.simps py_def)
  have 1: "main (Suc (Suc (Suc 0))) urljoin example_web example_url1 ?out
     = Some (Inr \<lparr>exit_code = 0, stdout = [py ''Wrote 3 rows to results.csv''], stderr = [],
         written = [(?out, select_and_order_columns example_merged)]\<rparr>)"
    using main_exit_code [of "Suc (Suc (Suc 0))" urljoin example_web example_url1 example_final_state ?out "{}"]
      d ex m s
    by (simp add: example_final_state_def example_merge)
  have ev: "\<forall>u\<in>set (fetched (trace \<lparr>all_frames = [], visited = {example_url1}, url = None,
             trace = [Visit example_url1, Fetch example_url1]\<rparr>)). frames_at empty_web u = []"
    by (simp add: frames_at_def empty_web_def page_frames_def extract_results_table_def)
  have 2: "main (Suc (Suc 0)) urljoin empty_web example_url1 ?out
     = Some (Inr \<lparr>exit_code = 1, stdout = [],
         stderr = [py ''No data found: could not locate a suitable results table.''], written = []\<rparr>)"
    using main_exit_code [of "Suc (Suc 0)" urljoin empty_web example_url1
        "\<lparr>all_frames = [], visited = {example_url1}, url = None,
          trace = [Visit example_url1, Fetch example_url1]\<rparr>" ?out "{}"]
      empty_run ev
    by blast
  have c: "\<forall>u html v. example_web u = Inr html \<and> find_next_page_url urljoin html u = Inr (Some v)
      \<longrightarrow> v \<in> {example_url1, example_url2}"
    using example_next1 example_next2 by (auto simp: example_web_def split: if_splits)
  have 3: "main (Suc (card {example_url1, example_url2})) urljoin example_web example_url1 ?out \<noteq> None"
    using main_exit_code [of 0 urljoin example_web example_url1 example_final_state ?out
        "{example_url1, example_url2}"] c
    by simp
  from 1 2 3 show ?thesis by (simp add: columns_select)
qed

end
